theory Spec2Isabelle
  imports Main
begin

section \<open>Response documents\<close>

text \<open>
  The pipeline of \<^verbatim>\<open>src/server/index.js\<close> walks documents produced by
  \<^verbatim>\<open>JSON.parse\<close>. A document is a tree of objects, arrays and scalars. An object is
  kept as the list of its properties in the order \<^verbatim>\<open>Object.values\<close> enumerates them
  (a parsed object has no two properties of the same name). A number is kept as an
  integer, which covers the integer-valued numbers of magnitude below \<open>2 ^ 53\<close> that a
  double holds exactly: the documents that matter here carry counts and identifiers, and
  the code asks of a number inside a document only whether it is zero and, for
  \<^verbatim>\<open>maxVideos\<close>, what \<^verbatim>\<open>parseInt\<close> makes of it.
\<close>

datatype json =
    JNull
  | JBool bool
  | JNum int
  | JStr string
  | JArr "json list"
  | JObj "(string \<times> json) list"

text \<open>JavaScript truthiness of a document value, as \<^verbatim>\<open>if (x)\<close> and \<^verbatim>\<open>x || y\<close> test it.\<close>

fun truthy :: "json \<Rightarrow> bool" where
  "truthy JNull = False"
| "truthy (JBool b) = b"
| "truthy (JNum n) = (n \<noteq> 0)"
| "truthy (JStr s) = (s \<noteq> [])"
| "truthy (JArr xs) = True"
| "truthy (JObj kvs) = True"

text \<open>\<^verbatim>\<open>typeof x === 'object'\<close>: true of objects, arrays and \<^verbatim>\<open>null\<close>.\<close>

fun typeof_object :: "json \<Rightarrow> bool" where
  "typeof_object JNull = True"
| "typeof_object (JArr xs) = True"
| "typeof_object (JObj kvs) = True"
| "typeof_object j = False"

text \<open>
  Property access \<^verbatim>\<open>x.name\<close> on a value that is neither \<^verbatim>\<open>null\<close> nor
  \<^verbatim>\<open>undefined\<close>; \<open>None\<close> stands for \<^verbatim>\<open>undefined\<close>. None of the names the
  pipeline reads is a built-in property of arrays, strings, numbers or booleans, so only
  an object can answer.
\<close>

fun js_get :: "json \<Rightarrow> string \<Rightarrow> json option" where
  "js_get (JObj kvs) k = map_of kvs k"
| "js_get j k = None"

text \<open>Optional chaining \<^verbatim>\<open>x?.name\<close>, where \<open>x\<close> may itself be \<^verbatim>\<open>undefined\<close>.\<close>

fun js_get_opt :: "json option \<Rightarrow> string \<Rightarrow> json option" where
  "js_get_opt None k = None"
| "js_get_opt (Some JNull) k = None"
| "js_get_opt (Some j) k = js_get j k"

fun truthy_opt :: "json option \<Rightarrow> bool" where
  "truthy_opt None = False"
| "truthy_opt (Some j) = truthy j"

text \<open>\<^verbatim>\<open>Object.values(x)\<close> for a value with \<^verbatim>\<open>typeof x === 'object'\<close> that is not null.\<close>

fun object_values :: "json \<Rightarrow> json list" where
  "object_values (JObj kvs) = map snd kvs"
| "object_values (JArr xs) = xs"
| "object_values j = []"

lemma size_map_snd:
  "size_list size (map snd kvs) \<le> size_list (size_prod (\<lambda>x. 0) size) kvs"
  by (induction kvs) auto

lemma size_object_values: "size_list size (object_values j) \<le> size j"
proof (cases j)
  case (JObj kvs)
  then show ?thesis using size_map_snd [of kvs] by simp
qed simp_all

section \<open>Continuation Locator\<close>

text \<open>
  \<^verbatim>\<open>findContinuationToken\<close> (index.js, lines 298--314). The outer loop runs over
  \<^verbatim>\<open>Object.values(obj)\<close>; a value that is an array has each item searched, any other
  value of type object is searched itself, and a scalar is skipped. The result is
  \<open>None\<close> for \<^verbatim>\<open>null\<close>.
\<close>

function (sequential) findContinuationToken :: "json \<Rightarrow> json option"
  and find_in_values :: "json list \<Rightarrow> json option"
  and find_in_items :: "json list \<Rightarrow> json option" where
  "findContinuationToken obj =
     (if \<not> truthy obj \<or> \<not> typeof_object obj then None
      else if truthy_opt (js_get_opt (js_get obj ''continuationCommand'') ''token'')
      then js_get_opt (js_get obj ''continuationCommand'') ''token''
      else if truthy_opt (js_get obj ''token'') \<and> truthy_opt (js_get obj ''continuationEndpoint'')
      then js_get obj ''token''
      else find_in_values (object_values obj))"
| "find_in_values [] = None"
| "find_in_values (JArr items # vs) =
     (case find_in_items items of Some found \<Rightarrow> Some found | None \<Rightarrow> find_in_values vs)"
| "find_in_values (v # vs) =
     (if typeof_object v
      then (case findContinuationToken v of Some found \<Rightarrow> Some found
            | None \<Rightarrow> find_in_values vs)
      else find_in_values vs)"
| "find_in_items [] = None"
| "find_in_items (item # items) =
     (case findContinuationToken item of Some found \<Rightarrow> Some found
      | None \<Rightarrow> find_in_items items)"
  by pat_completeness auto
termination
proof (relation "measure (\<lambda>x. case x of Inl j \<Rightarrow> 2 * size j + 1
           | Inr (Inl vs) \<Rightarrow> 2 * size_list size vs
           | Inr (Inr vs) \<Rightarrow> 2 * size_list size vs)", goal_cases)
  case (2 obj)
  then show ?case using size_object_values [of obj] by simp
qed simp_all

subsection \<open>The traversal the specification describes\<close>

text \<open>All nodes of a document in depth-first, left-to-right order, a node before its children.\<close>

fun preorder :: "json \<Rightarrow> json list" where
  "preorder (JArr xs) = JArr xs # concat (map preorder xs)"
| "preorder (JObj kvs) = JObj kvs # concat (map preorder (map snd kvs))"
| "preorder j = [j]"

fun first_some :: "('a \<Rightarrow> 'b option) \<Rightarrow> 'a list \<Rightarrow> 'b option" where
  "first_some f [] = None"
| "first_some f (x # xs) = (case f x of Some y \<Rightarrow> Some y | None \<Rightarrow> first_some f xs)"

text \<open>
  A match in the specification's words: an object whose \<^verbatim>\<open>continuationCommand\<close> field
  carries a \<^verbatim>\<open>token\<close> sub-field, or an object carrying both a \<^verbatim>\<open>token\<close> field and a
  \<^verbatim>\<open>continuationEndpoint\<close> sibling field.
\<close>

definition spec_match :: "json \<Rightarrow> json option" where
  "spec_match node =
     (case js_get_opt (js_get node ''continuationCommand'') ''token'' of
        Some t \<Rightarrow> Some t
      | None \<Rightarrow>
          (case (js_get node ''token'', js_get node ''continuationEndpoint'') of
             (Some t, Some e) \<Rightarrow> Some t
           | _ \<Rightarrow> None))"

definition spec_locator :: "json \<Rightarrow> json option" where
  "spec_locator doc = first_some spec_match (preorder doc)"

text \<open>
  The same match with the fields required to hold usable values: the token (and the
  \<^verbatim>\<open>continuationEndpoint\<close> sibling) must be truthy, that is, not \<^verbatim>\<open>null\<close>,
  \<^verbatim>\<open>false\<close>, \<^verbatim>\<open>0\<close> or the empty string.
\<close>

definition usable_match :: "json \<Rightarrow> json option" where
  "usable_match node =
     (if truthy_opt (js_get_opt (js_get node ''continuationCommand'') ''token'')
      then js_get_opt (js_get node ''continuationCommand'') ''token''
      else if truthy_opt (js_get node ''token'') \<and> truthy_opt (js_get node ''continuationEndpoint'')
      then js_get node ''token''
      else None)"


section \<open>Strings, numbers and patterns\<close>

text \<open>
  A string is a list of characters, one per code unit; the model covers code units below
  256. \<^verbatim>\<open>parseInt\<close> returns a number or \<^verbatim>\<open>NaN\<close>; integer results are exact below
  \<open>2 ^ 53\<close>.
\<close>

datatype jsnum = NaN | Num int

definition dquote :: char where
  "dquote = CHR 0x22"

definition is_digit :: "char \<Rightarrow> bool" where
  "is_digit c = (48 \<le> (of_char c :: nat) \<and> (of_char c :: nat) \<le> 57)"

definition digit_value :: "char \<Rightarrow> int" where
  "digit_value c = int (of_char c) - 48"

definition is_hex_digit :: "char \<Rightarrow> bool" where
  "is_hex_digit c = (is_digit c \<or> c \<in> set ''abcdefABCDEF'')"

definition hex_value :: "char \<Rightarrow> int" where
  "hex_value c =
     (if is_digit c then digit_value c
      else if c \<in> set ''abcdef'' then int (of_char c) - 87
      else int (of_char c) - 55)"

text \<open>White space that \<^verbatim>\<open>parseInt\<close> skips: tab, LF, VT, FF, CR, space, no-break space.\<close>

definition is_white_space :: "char \<Rightarrow> bool" where
  "is_white_space c = ((of_char c :: nat) \<in> {9, 10, 11, 12, 13, 32, 160})"

text \<open>Line terminators, which the pattern \<^verbatim>\<open>.\<close> does not match: LF and CR.\<close>

definition is_line_terminator :: "char \<Rightarrow> bool" where
  "is_line_terminator c = ((of_char c :: nat) \<in> {10, 13})"

fun digits_value :: "(char \<Rightarrow> int) \<Rightarrow> int \<Rightarrow> int \<Rightarrow> string \<Rightarrow> int" where
  "digits_value dv radix acc [] = acc"
| "digits_value dv radix acc (c # cs) = digits_value dv radix (acc * radix + dv c) cs"

text \<open>
  \<^verbatim>\<open>parseInt(s)\<close> with no radix: leading white space is skipped, a sign is read, a
  \<^verbatim>\<open>0x\<close> or \<^verbatim>\<open>0X\<close> prefix selects radix 16, and the longest run of digits is
  converted; an empty run gives \<^verbatim>\<open>NaN\<close>.
\<close>

definition parse_unsigned :: "string \<Rightarrow> jsnum" where
  "parse_unsigned s =
     (if take 2 s = ''0x'' \<or> take 2 s = ''0X''
      then (let z = takeWhile is_hex_digit (drop 2 s)
            in if z = [] then NaN else Num (digits_value hex_value 16 0 z))
      else (let z = takeWhile is_digit s
            in if z = [] then NaN else Num (digits_value digit_value 10 0 z)))"

fun jsnum_negate :: "jsnum \<Rightarrow> jsnum" where
  "jsnum_negate NaN = NaN"
| "jsnum_negate (Num n) = Num (- n)"

definition parseInt_string :: "string \<Rightarrow> jsnum" where
  "parseInt_string s =
     (case dropWhile is_white_space s of
        [] \<Rightarrow> NaN
      | c # cs \<Rightarrow>
          if c = CHR ''-'' then jsnum_negate (parse_unsigned cs)
          else if c = CHR ''+'' then parse_unsigned cs
          else parse_unsigned (c # cs))"

text \<open>Decimal numerals, for \<^verbatim>\<open>String(n)\<close> and template literals.\<close>

fun show_nat :: "nat \<Rightarrow> string" where
  "show_nat n =
     (if n < 10 then [char_of (48 + n)]
      else show_nat (n div 10) @ [char_of (48 + n mod 10)])"

declare show_nat.simps [simp del]

definition show_int :: "int \<Rightarrow> string" where
  "show_int i = (if i < 0 then CHR ''-'' # show_nat (nat (- i)) else show_nat (nat i))"

fun join :: "string \<Rightarrow> string list \<Rightarrow> string" where
  "join sep [] = []"
| "join sep [s] = s"
| "join sep (s # t # ts) = s @ sep @ join sep (t # ts)"

text \<open>
  \<^verbatim>\<open>String(x)\<close> of a document value: an array joins its elements with commas, writing
  nothing for \<^verbatim>\<open>null\<close>; a plain object is \<^verbatim>\<open>[object Object]\<close>.
\<close>

fun js_toString :: "json \<Rightarrow> string" where
  "js_toString JNull = ''null''"
| "js_toString (JBool b) = (if b then ''true'' else ''false'')"
| "js_toString (JNum n) = show_int n"
| "js_toString (JStr s) = s"
| "js_toString (JArr xs) =
     join '','' (map (\<lambda>x. if x = JNull then [] else js_toString x) xs)"
| "js_toString (JObj kvs) = ''[object Object]''"

text \<open>
  \<^verbatim>\<open>parseInt(x)\<close> of a value that may be \<^verbatim>\<open>undefined\<close>. A number is written out and
  read back, which returns the number itself.
\<close>

fun parseInt :: "json option \<Rightarrow> jsnum" where
  "parseInt None = NaN"
| "parseInt (Some (JNum n)) = Num n"
| "parseInt (Some j) = parseInt_string (js_toString j)"

text \<open>\<^verbatim>\<open>x || d\<close> for a number: \<^verbatim>\<open>NaN\<close> and \<open>0\<close> are falsy.\<close>

fun num_or :: "jsnum \<Rightarrow> int \<Rightarrow> int" where
  "num_or NaN d = d"
| "num_or (Num n) d = (if n = 0 then d else n)"

text \<open>\<^verbatim>\<open>x || d\<close> for a document value that may be \<^verbatim>\<open>undefined\<close>.\<close>

fun json_or :: "json option \<Rightarrow> json \<Rightarrow> json" where
  "json_or None d = d"
| "json_or (Some j) d = (if truthy j then j else d)"

fun strip_prefix :: "string \<Rightarrow> string \<Rightarrow> string option" where
  "strip_prefix [] s = Some s"
| "strip_prefix (p # ps) [] = None"
| "strip_prefix (p # ps) (c # cs) = (if p = c then strip_prefix ps cs else None)"

text \<open>
  \<^verbatim>\<open>s.match(re)\<close> without the global flag: the match at the leftmost position where the
  pattern matches. The pattern is given as a function that tries to match at the start of
  a text.
\<close>

fun regex_search :: "(string \<Rightarrow> 'a option) \<Rightarrow> string \<Rightarrow> 'a option" where
  "regex_search m [] = m []"
| "regex_search m (c # cs) =
     (case m (c # cs) of Some r \<Rightarrow> Some r | None \<Rightarrow> regex_search m cs)"

text \<open>
  The lazy \<^verbatim>\<open>.*?\<close> followed by the rest of a pattern: the rest is tried after the
  fewest characters first, and \<^verbatim>\<open>.\<close> does not step over a line terminator.
\<close>

fun lazy_any :: "(string \<Rightarrow> 'a option) \<Rightarrow> string \<Rightarrow> 'a option" where
  "lazy_any m [] = m []"
| "lazy_any m (c # cs) =
     (case m (c # cs) of Some r \<Rightarrow> Some r
      | None \<Rightarrow> if is_line_terminator c then None else lazy_any m cs)"

section \<open>Identifier Resolver\<close>

datatype js_error = FetchError string | SyntaxError string | TypeError string

fun message :: "js_error \<Rightarrow> string" where
  "message (FetchError m) = m"
| "message (SyntaxError m) = m"
| "message (TypeError m) = m"

type_synonym 'a outcome = "js_error + 'a"

text \<open>
  The pattern \<^verbatim>\<open>"<name>":"(UC[^"]+)"\<close> tried at the start of a text. The class
  \<^verbatim>\<open>[^"]+\<close> is greedy and the next character must be a quote, so the group is
  \<^verbatim>\<open>UC\<close> followed by the whole run of characters up to the next quote.
\<close>

definition channel_marker :: "string \<Rightarrow> string \<Rightarrow> string option" where
  "channel_marker name s =
     (case strip_prefix ([dquote] @ name @ [dquote] @ '':'' @ [dquote] @ ''UC'') s of
        None \<Rightarrow> None
      | Some r \<Rightarrow>
          (let run = takeWhile (\<lambda>c. c \<noteq> dquote) r;
               rest = dropWhile (\<lambda>c. c \<noteq> dquote) r
           in if run \<noteq> [] \<and> rest \<noteq> [] then Some (''UC'' @ run) else None))"

text \<open>
  \<^verbatim>\<open>resolveChannelId\<close> (lines 229--243), given the outcome of fetching the channel page
  and reading its text. \<open>Inr None\<close> is the \<^verbatim>\<open>null\<close> the function returns when neither
  marker is found.
\<close>

definition resolveChannelId :: "string outcome \<Rightarrow> string option outcome" where
  "resolveChannelId page =
     (case page of
        Inl err \<Rightarrow> Inl err
      | Inr html \<Rightarrow>
          (case regex_search (channel_marker ''externalId'') html of
             Some externalMatch \<Rightarrow> Inr (Some externalMatch)
           | None \<Rightarrow> Inr (regex_search (channel_marker ''channelId'') html)))"

section \<open>Video ID Extractor and Video Enumerator\<close>

text \<open>
  The first statement of \<^verbatim>\<open>extractVideoIds\<close> (lines 264--266): a \<^verbatim>\<open>videoId\<close>
  property that is a string of length 11 is pushed unless the list already includes it.
\<close>

definition push_videoId :: "json \<Rightarrow> string list \<Rightarrow> string list" where
  "push_videoId obj videoIds =
     (case js_get obj ''videoId'' of
        Some (JStr s) \<Rightarrow>
          if s \<noteq> [] \<and> length s = 11
          then (if s \<in> set videoIds then videoIds else videoIds @ [s])
          else videoIds
      | _ \<Rightarrow> videoIds)"

text \<open>
  \<^verbatim>\<open>extractVideoIds\<close> (lines 262--272) with the list \<^verbatim>\<open>videoIds\<close> it appends to passed
  in and returned. \<open>extract_values\<close> is the loop over \<^verbatim>\<open>Object.values(obj)\<close>, which tests
  the length of the list before each value; \<open>extract_forEach\<close> is \<^verbatim>\<open>val.forEach\<close>, which
  does not.
\<close>

function (sequential) extractVideoIds :: "nat \<Rightarrow> json \<Rightarrow> string list \<Rightarrow> string list"
  and extract_values :: "nat \<Rightarrow> json list \<Rightarrow> string list \<Rightarrow> string list"
  and extract_forEach :: "nat \<Rightarrow> json list \<Rightarrow> string list \<Rightarrow> string list" where
  "extractVideoIds maxVideos obj videoIds =
     (if \<not> truthy obj \<or> \<not> typeof_object obj then videoIds
      else extract_values maxVideos (object_values obj) (push_videoId obj videoIds))"
| "extract_values maxVideos [] videoIds = videoIds"
| "extract_values maxVideos (JArr items # vals) videoIds =
     (if length videoIds \<ge> maxVideos then videoIds
      else extract_values maxVideos vals (extract_forEach maxVideos items videoIds))"
| "extract_values maxVideos (val # vals) videoIds =
     (if length videoIds \<ge> maxVideos then videoIds
      else if typeof_object val
      then extract_values maxVideos vals (extractVideoIds maxVideos val videoIds)
      else extract_values maxVideos vals videoIds)"
| "extract_forEach maxVideos [] videoIds = videoIds"
| "extract_forEach maxVideos (item # items) videoIds =
     extract_forEach maxVideos items (extractVideoIds maxVideos item videoIds)"
  by pat_completeness auto
termination
proof (relation "measure (\<lambda>x. case x of Inl (m, j, ids) \<Rightarrow> 2 * size j + 1
           | Inr (Inl (m, vs, ids)) \<Rightarrow> 2 * size_list size vs
           | Inr (Inr (m, vs, ids)) \<Rightarrow> 2 * size_list size vs)", goal_cases)
  case (2 maxVideos obj videoIds)
  then show ?case using size_object_values [of obj] by simp
qed simp_all

text \<open>
  The state of \<^verbatim>\<open>fetchChannelVideoIds\<close> (lines 245--296): its variables \<^verbatim>\<open>videoIds\<close>,
  \<^verbatim>\<open>data\<close> and \<^verbatim>\<open>attempts\<close>, and, to speak about what the function did, the
  continuation tokens it has sent and the documents it has received, in order.
\<close>

record enum_state =
  videoIds :: "string list"
  data :: json
  attempts :: nat
  sent :: "json list"
  pages :: "json list"

text \<open>
  The browse endpoint as the enumeration sees it: the answer to the initial request for a
  channel, and the answer to the \<open>k\<close>-th continuation request carrying a token. Either is
  the parsed document, or the error raised by the request or by parsing its body.
\<close>

record browse_api =
  browse_channel :: "string \<Rightarrow> json outcome"
  browse_continuation :: "nat \<Rightarrow> json \<Rightarrow> json outcome"

text \<open>One pass through the \<^verbatim>\<open>while\<close> loop (lines 278--293).\<close>

datatype round_result = Done | Raised js_error | Continue enum_state

definition browse_round :: "browse_api \<Rightarrow> nat \<Rightarrow> enum_state \<Rightarrow> round_result" where
  "browse_round api maxVideos st =
     (if length (videoIds st) < maxVideos \<and> attempts st < 10
      then (case findContinuationToken (data st) of
              None \<Rightarrow> Done
            | Some contToken \<Rightarrow>
                if \<not> truthy contToken then Done
                else (case browse_continuation api (attempts st + 1) contToken of
                        Inl err \<Rightarrow> Raised err
                      | Inr d \<Rightarrow>
                          Continue \<lparr> videoIds = extractVideoIds maxVideos d (videoIds st),
                                     data = d,
                                     attempts = attempts st + 1,
                                     sent = sent st @ [contToken],
                                     pages = pages st @ [d] \<rparr>))
      else Done)"

function browse_loop :: "browse_api \<Rightarrow> nat \<Rightarrow> enum_state \<Rightarrow> enum_state outcome" where
  "browse_loop api maxVideos st =
     (case browse_round api maxVideos st of
        Done \<Rightarrow> Inr st
      | Raised err \<Rightarrow> Inl err
      | Continue st' \<Rightarrow> browse_loop api maxVideos st')"
  by pat_completeness auto
termination
proof (relation "measure (\<lambda>(api, maxVideos, st). 10 - attempts st)", goal_cases)
  case (2 api maxVideos st st')
  then show ?case
    by (auto simp: browse_round_def split: if_splits option.splits sum.splits)
qed simp

declare browse_loop.simps [simp del]

text \<open>The state after the initial request (lines 246--274).\<close>

definition first_page :: "nat \<Rightarrow> json \<Rightarrow> enum_state" where
  "first_page maxVideos d =
     \<lparr> videoIds = extractVideoIds maxVideos d [], data = d, attempts = 0,
       sent = [], pages = [d] \<rparr>"

definition enumerate_run :: "browse_api \<Rightarrow> string \<Rightarrow> nat \<Rightarrow> enum_state outcome" where
  "enumerate_run api channelId maxVideos =
     (case browse_channel api channelId of
        Inl err \<Rightarrow> Inl err
      | Inr d \<Rightarrow> browse_loop api maxVideos (first_page maxVideos d))"

definition fetchChannelVideoIds :: "browse_api \<Rightarrow> string \<Rightarrow> nat \<Rightarrow> string list outcome" where
  "fetchChannelVideoIds api channelId maxVideos =
     (case enumerate_run api channelId maxVideos of
        Inl err \<Rightarrow> Inl err
      | Inr st \<Rightarrow> Inr (take maxVideos (videoIds st)))"

text \<open>The state after \<open>k\<close> passes through the loop, when the run gets that far.\<close>

fun after_rounds :: "browse_api \<Rightarrow> nat \<Rightarrow> nat \<Rightarrow> enum_state \<Rightarrow> enum_state option" where
  "after_rounds api maxVideos 0 st = Some st"
| "after_rounds api maxVideos (Suc k) st =
     (case browse_round api maxVideos st of
        Continue st' \<Rightarrow> after_rounds api maxVideos k st'
      | _ \<Rightarrow> None)"

subsection \<open>Discovery order\<close>

text \<open>
  The identifier a single node contributes, and the identifiers of a sequence of
  documents in depth-first, left-to-right order, each kept at its first occurrence.
\<close>

definition node_videoId :: "json \<Rightarrow> string list" where
  "node_videoId node =
     (case js_get node ''videoId'' of
        Some (JStr s) \<Rightarrow> if length s = 11 then [s] else []
      | _ \<Rightarrow> [])"

definition document_videoIds :: "json \<Rightarrow> string list" where
  "document_videoIds doc = concat (map node_videoId (preorder doc))"

fun first_occurrences :: "'a list \<Rightarrow> 'a list \<Rightarrow> 'a list" where
  "first_occurrences seen [] = seen"
| "first_occurrences seen (x # xs) =
     first_occurrences (if x \<in> set seen then seen else seen @ [x]) xs"

definition documents_videoIds :: "json list \<Rightarrow> string list" where
  "documents_videoIds docs = concat (map document_videoIds docs)"

definition discovery_order :: "json list \<Rightarrow> string list" where
  "discovery_order docs = first_occurrences [] (documents_videoIds docs)"

text \<open>
  What holds of the enumeration state after the initial request for document \<open>d0\<close> and
  after every pass through the loop: the list has no duplicates and agrees, up to the
  limit, with the discovery order of the documents received; one document was received
  for the initial request and one for each token sent; each token sent is the one
  located in the document before it, answered by the document after it; and each token
  was sent while the documents received until then held fewer identifiers than the
  limit.
\<close>

definition enum_inv :: "browse_api \<Rightarrow> nat \<Rightarrow> json \<Rightarrow> enum_state \<Rightarrow> bool" where
  "enum_inv api maxVideos d0 st =
     (distinct (videoIds st)
      \<and> take maxVideos (videoIds st) = take maxVideos (discovery_order (pages st))
      \<and> attempts st = length (sent st)
      \<and> attempts st \<le> 10
      \<and> length (pages st) = Suc (length (sent st))
      \<and> data st = last (pages st)
      \<and> pages st ! 0 = d0
      \<and> list_all (\<lambda>k. findContinuationToken (pages st ! k) = Some (sent st ! k)
                      \<and> browse_continuation api (Suc k) (sent st ! k) = Inr (pages st ! Suc k))
            [0..<length (sent st)]
      \<and> list_all (\<lambda>k. length (discovery_order (take (Suc k) (pages st))) < maxVideos)
            [0..<length (sent st)])"

section \<open>Metadata Fetcher\<close>

text \<open>
  The object \<^verbatim>\<open>getVideoDetails\<close> returns (lines 338--350). \<^verbatim>\<open>title\<close>,
  \<^verbatim>\<open>description\<close>, \<^verbatim>\<open>releaseDate\<close> and \<^verbatim>\<open>thumbnailUrl\<close> are whatever the player
  response holds when that is truthy, so they are document values; \<^verbatim>\<open>likeCount\<close> and
  \<^verbatim>\<open>commentCount\<close> are \<^verbatim>\<open>null\<close> (\<open>None\<close>) or a number.
\<close>

record VideoRecord =
  videoId :: string
  title :: json
  description :: json
  duration :: int
  viewCount :: int
  likeCount :: "jsnum option"
  commentCount :: "jsnum option"
  releaseDate :: json
  videoUrl :: string
  thumbnailUrl :: json
  transcript :: "string option"

definition fallback_thumbnail :: "string \<Rightarrow> string" where
  "fallback_thumbnail vid = ''https://i.ytimg.com/vi/'' @ vid @ ''/hqdefault.jpg''"

text \<open>
  \<^verbatim>\<open>vd.thumbnail?.thumbnails?.slice(-1)?.[0]?.url\<close>. On an array \<^verbatim>\<open>slice(-1)\<close> keeps
  the last element; on a string it keeps the last character, which has no \<^verbatim>\<open>url\<close>; any
  other value that is not \<^verbatim>\<open>null\<close> has no callable \<^verbatim>\<open>slice\<close>, and the call raises.
\<close>

definition last_thumbnail_url :: "json \<Rightarrow> json option outcome" where
  "last_thumbnail_url vd =
     (case js_get_opt (js_get vd ''thumbnail'') ''thumbnails'' of
        None \<Rightarrow> Inr None
      | Some JNull \<Rightarrow> Inr None
      | Some (JArr ts) \<Rightarrow> Inr (if ts = [] then None else js_get_opt (Some (last ts)) ''url'')
      | Some (JStr s) \<Rightarrow> Inr None
      | Some other \<Rightarrow> Inl (TypeError ''vd.thumbnail?.thumbnails?.slice is not a function''))"

text \<open>
  \<^verbatim>\<open>getVideoDetails\<close> (lines 316--351), given the outcome of the player request (the
  parsed body, or the error raised) and of the transcript request (the texts of the
  segments, or \<open>None\<close> when anything in the \<^verbatim>\<open>try\<close> block raised). Reading
  \<^verbatim>\<open>data.videoDetails\<close> raises when the body is \<^verbatim>\<open>null\<close>.
\<close>

definition getVideoDetails ::
  "string \<Rightarrow> json outcome \<Rightarrow> string list option \<Rightarrow> VideoRecord outcome" where
  "getVideoDetails vid player segments =
     (case player of
        Inl err \<Rightarrow> Inl err
      | Inr d \<Rightarrow>
          if d = JNull
          then Inl (TypeError ''Cannot read properties of null'')
          else
            (let vd = json_or (js_get d ''videoDetails'') (JObj []);
                 md = json_or (js_get_opt (js_get d ''microformat'') ''playerMicroformatRenderer'')
                        (JObj [])
             in case last_thumbnail_url vd of
                  Inl err \<Rightarrow> Inl err
                | Inr url \<Rightarrow>
                    Inr \<lparr> videoId = vid,
                          title = json_or (js_get vd ''title'') (JStr []),
                          description = json_or (js_get vd ''shortDescription'') (JStr []),
                          duration = num_or (parseInt (js_get vd ''lengthSeconds'')) 0,
                          viewCount = num_or (parseInt (js_get vd ''viewCount'')) 0,
                          likeCount = None,
                          commentCount = None,
                          releaseDate =
                            json_or (js_get md ''publishDate'')
                              (json_or (js_get md ''uploadDate'') (JStr [])),
                          videoUrl = ''https://www.youtube.com/watch?v='' @ vid,
                          thumbnailUrl = json_or url (JStr (fallback_thumbnail vid)),
                          transcript = map_option (join '' '') segments \<rparr>))"

subsection \<open>The selection the specification describes\<close>

text \<open>
  The resolution of a thumbnail entry is its \<^verbatim>\<open>width\<close> times its \<^verbatim>\<open>height\<close>; the
  highest-resolution entry of a list is the first one no other entry exceeds.
\<close>

definition resolution :: "json \<Rightarrow> int" where
  "resolution t =
     (case (js_get t ''width'', js_get t ''height'') of
        (Some (JNum w), Some (JNum h)) \<Rightarrow> w * h
      | _ \<Rightarrow> 0)"

fun highest_resolution :: "json list \<Rightarrow> json option" where
  "highest_resolution [] = None"
| "highest_resolution (t # ts) =
     (case highest_resolution ts of
        None \<Rightarrow> Some t
      | Some b \<Rightarrow> if resolution b > resolution t then Some b else Some t)"

text \<open>The thumbnail list of a player response, when it is there and is a list.\<close>

definition thumbnail_list :: "json \<Rightarrow> json list option" where
  "thumbnail_list d =
     (case js_get_opt (js_get_opt (js_get d ''videoDetails'') ''thumbnail'') ''thumbnails'' of
        Some (JArr ts) \<Rightarrow> Some ts
      | _ \<Rightarrow> None)"

section \<open>Engagement Enricher\<close>

text \<open>
  The two patterns of \<^verbatim>\<open>enrichWithEngagementData\<close> tried at the start of a text:
  \<^verbatim>\<open>"label":"([\d,]+) likes"\<close> and \<^verbatim>\<open>"simpleText":"([\d,]+)"\<close>. The class is greedy
  and the character after it is neither a digit nor a comma, so the group is the whole
  run of digits and commas.
\<close>

definition count_group :: "string \<Rightarrow> string \<Rightarrow> string \<Rightarrow> string option" where
  "count_group opening closing s =
     (case strip_prefix opening s of
        None \<Rightarrow> None
      | Some r \<Rightarrow>
          (let run = takeWhile (\<lambda>c. is_digit c \<or> c = CHR '','') r;
               rest = dropWhile (\<lambda>c. is_digit c \<or> c = CHR '','') r
           in if run \<noteq> [] \<and> strip_prefix closing rest \<noteq> None then Some run else None))"

text \<open>\<^verbatim>\<open>/"defaultIcon".*?"label":"([\d,]+) likes"/\<close> tried at the start of a text.\<close>

definition like_pattern :: "string \<Rightarrow> string option" where
  "like_pattern s =
     (case strip_prefix ([dquote] @ ''defaultIcon'' @ [dquote]) s of
        None \<Rightarrow> None
      | Some r \<Rightarrow>
          lazy_any (count_group ([dquote] @ ''label'' @ [dquote] @ '':'' @ [dquote])
                      ('' likes'' @ [dquote])) r)"

text \<open>\<^verbatim>\<open>/"commentCount".*?"simpleText":"([\d,]+)"/\<close> tried at the start of a text.\<close>

definition comment_pattern :: "string \<Rightarrow> string option" where
  "comment_pattern s =
     (case strip_prefix ([dquote] @ ''commentCount'' @ [dquote]) s of
        None \<Rightarrow> None
      | Some r \<Rightarrow>
          lazy_any (count_group ([dquote] @ ''simpleText'' @ [dquote] @ '':'' @ [dquote])
                      [dquote]) r)"

text \<open>\<^verbatim>\<open>parseInt(m[1].replace(/,/g, ''))\<close>.\<close>

definition parse_count :: "string \<Rightarrow> jsnum" where
  "parse_count g = parseInt_string (filter (\<lambda>c. c \<noteq> CHR '','') g)"

text \<open>
  The body of the \<^verbatim>\<open>try\<close> block (lines 356--365), given the outcome of fetching the
  watch page and reading its text: it raises when that raised, and otherwise assigns the
  counts whose pattern matched.
\<close>

definition enrich_try :: "string outcome \<Rightarrow> VideoRecord \<Rightarrow> VideoRecord outcome" where
  "enrich_try page videoInfo =
     (case page of
        Inl err \<Rightarrow> Inl err
      | Inr html \<Rightarrow>
          (let v1 = (case regex_search like_pattern html of
                       Some likeMatch \<Rightarrow> videoInfo \<lparr> likeCount := Some (parse_count likeMatch) \<rparr>
                     | None \<Rightarrow> videoInfo);
               v2 = (case regex_search comment_pattern html of
                       Some commentMatch \<Rightarrow> v1 \<lparr> commentCount := Some (parse_count commentMatch) \<rparr>
                     | None \<Rightarrow> v1)
           in Inr v2))"

text \<open>The record as the function leaves it: the \<^verbatim>\<open>catch\<close> clause does nothing.\<close>

definition enrich_fields :: "string outcome \<Rightarrow> VideoRecord \<Rightarrow> VideoRecord" where
  "enrich_fields page videoInfo =
     (case enrich_try page videoInfo of
        Inl err \<Rightarrow> videoInfo
      | Inr v \<Rightarrow> v)"

text \<open>
  \<^verbatim>\<open>enrichWithEngagementData\<close> (lines 354--368) on a store of record objects. The
  argument is a reference to a record; the function assigns to fields of that object and
  returns the reference it was given. The result is an outcome, so that raising would
  show as \<open>Inl\<close>.
\<close>

type_synonym ref = nat
type_synonym store = "ref \<Rightarrow> VideoRecord"

definition enrichWithEngagementData ::
  "string outcome \<Rightarrow> ref \<Rightarrow> store \<Rightarrow> (ref \<times> store) outcome" where
  "enrichWithEngagementData page videoInfo heap =
     Inr (videoInfo, heap (videoInfo := enrich_fields page (heap videoInfo)))"

section \<open>Pipeline orchestration and Progress Reporter\<close>

text \<open>
  An entry of the \<^verbatim>\<open>videos\<close> array is either the record of a video or the object
  \<^verbatim>\<open>{ videoId, error }\<close> pushed by the \<^verbatim>\<open>catch\<close> clause of the per-video loop. An
  event is what \<^verbatim>\<open>send\<close> writes to the stream.
\<close>

datatype entry = Video VideoRecord | Failed string string

datatype event = Status string nat | Error string | Result "entry list"

datatype response = BadRequest string | EventStream "event list"

text \<open>Everything the handler reaches over the network, as outcomes of the requests.\<close>

record upstream =
  channel_page :: "json \<Rightarrow> string outcome"
  browse :: browse_api
  player :: "string \<Rightarrow> json outcome"
  transcript_segments :: "string \<Rightarrow> string list option"
  watch_page :: "string \<Rightarrow> string outcome"

text \<open>\<^verbatim>\<open>Math.min(Math.max(1, parseInt(maxVideos) || 10), 100)\<close> (line 376).\<close>

definition video_limit :: "json option \<Rightarrow> int" where
  "video_limit maxVideos = min (max 1 (num_or (parseInt maxVideos) 10)) 100"

text \<open>
  \<^verbatim>\<open>Math.round((i / n) * 85)\<close> (line 402) is computed in double precision. For list
  lengths up to 100, which is all the handler produces, the product is the exact value of
  \<open>85 i / n\<close> rounded to the nearest double, and \<^verbatim>\<open>Math.round\<close> of it is that value
  rounded half up, with one exception: \<open>0.7\<close> is not a double, \<^verbatim>\<open>0.7 * 85\<close> evaluates to
  \<open>59.49999999999999\<close>, and so the result at \<open>i / n = 7 / 10\<close> is 59 where exact
  arithmetic gives 60.
\<close>

definition round_85 :: "nat \<Rightarrow> nat \<Rightarrow> nat" where
  "round_85 i n = (if 10 * i = 7 * n then 59 else (170 * i + n) div (2 * n))"

definition progress_pct :: "nat \<Rightarrow> nat \<Rightarrow> nat" where
  "progress_pct i n = 10 + round_85 i n"

text \<open>
  The body of the per-video \<^verbatim>\<open>try\<close> and its \<^verbatim>\<open>catch\<close> (lines 404--411). The record
  that \<^verbatim>\<open>getVideoDetails\<close> creates is referenced by nothing else, so the enricher's
  assignments are taken on the record itself.
\<close>

definition fetch_entry :: "upstream \<Rightarrow> string \<Rightarrow> entry" where
  "fetch_entry w vid =
     (case getVideoDetails vid (player w vid) (transcript_segments w vid) of
        Inr info \<Rightarrow> Video (enrich_fields (watch_page w vid) info)
      | Inl err \<Rightarrow> Failed vid (message err))"

definition downloading_status :: "nat \<Rightarrow> nat \<Rightarrow> event" where
  "downloading_status i n =
     Status (''Downloading video '' @ show_nat (i + 1) @ ''/'' @ show_nat n @ ''...'')
       (progress_pct i n)"

text \<open>The \<^verbatim>\<open>for\<close> loop (lines 401--412), with \<^verbatim>\<open>videos\<close> and the events sent so far.\<close>

function video_loop ::
  "upstream \<Rightarrow> string list \<Rightarrow> nat \<Rightarrow> entry list \<Rightarrow> event list \<Rightarrow> entry list \<times> event list"
  where
  "video_loop w ids i videos out =
     (if i < length ids
      then video_loop w ids (i + 1) (videos @ [fetch_entry w (ids ! i)])
             (out @ [downloading_status i (length ids)])
      else (videos, out))"
  by pat_completeness auto
termination
  by (relation "measure (\<lambda>(w, ids, i, videos, out). length ids - i)") auto

declare video_loop.simps [simp del]

text \<open>
  The handler from the first \<^verbatim>\<open>send\<close> on (lines 384--425): the events written to the
  stream. An error raised by \<^verbatim>\<open>resolveChannelId\<close> or \<^verbatim>\<open>fetchChannelVideoIds\<close> reaches
  the outer \<^verbatim>\<open>catch\<close>, which writes an error event.
\<close>

definition run_pipeline :: "upstream \<Rightarrow> json \<Rightarrow> nat \<Rightarrow> event list" where
  "run_pipeline w channelUrl maxVideos =
     (let out0 = [Status ''Resolving channel...'' 0] in
      case resolveChannelId (channel_page w channelUrl) of
        Inl err \<Rightarrow> out0 @ [Error (message err)]
      | Inr None \<Rightarrow> out0 @ [Error ''Could not resolve channel ID from URL'']
      | Inr (Some channelId) \<Rightarrow>
          if channelId = [] then out0 @ [Error ''Could not resolve channel ID from URL'']
          else
            (let out1 = out0 @ [Status ''Fetching video list...'' 5] in
             case fetchChannelVideoIds (browse w) channelId maxVideos of
               Inl err \<Rightarrow> out1 @ [Error (message err)]
             | Inr ids \<Rightarrow>
                 if ids = [] then out1 @ [Error ''No videos found for this channel'']
                 else
                   (let out2 = out1 @
                          [Status (''Found '' @ show_nat (length ids) @
                                   '' videos. Downloading metadata...'') 10];
                        done = video_loop w ids 0 [] out2
                    in snd done @ [Status ''Done!'' 100, Result (fst done)])))"

text \<open>
  The handler of \<^verbatim>\<open>POST /api/youtube/channel\<close> (lines 371--426) on a parsed request
  body. \<^verbatim>\<open>maxVideos\<close> takes its default 10 when the body has no such property.
\<close>

definition effective_limit :: "json \<Rightarrow> nat" where
  "effective_limit body =
     nat (video_limit (case js_get body ''maxVideos'' of
                         None \<Rightarrow> Some (JNum 10)
                       | Some v \<Rightarrow> Some v))"

definition channel_handler :: "upstream \<Rightarrow> json \<Rightarrow> response" where
  "channel_handler w body =
     (case js_get body ''channelUrl'' of
        None \<Rightarrow> BadRequest ''channelUrl required''
      | Some channelUrl \<Rightarrow>
          if \<not> truthy channelUrl then BadRequest ''channelUrl required''
          else EventStream (run_pipeline w channelUrl (effective_limit body)))"

text \<open>The progress values of the status events of a stream, in emission order.\<close>

fun progress_values :: "event list \<Rightarrow> nat list" where
  "progress_values [] = []"
| "progress_values (Status m p # es) = p # progress_values es"
| "progress_values (e # es) = progress_values es"

fun is_status :: "event \<Rightarrow> bool" where
  "is_status (Status m p) = True"
| "is_status e = False"

fun is_terminal :: "event \<Rightarrow> bool" where
  "is_terminal (Status m p) = False"
| "is_terminal e = True"

fun entry_videoId :: "entry \<Rightarrow> string" where
  "entry_videoId (Video r) = videoId r"
| "entry_videoId (Failed vid m) = vid"

text \<open>The integer clamp of the specification.\<close>

definition clamp :: "int \<Rightarrow> int \<Rightarrow> int \<Rightarrow> int" where
  "clamp lo hi x = (if x < lo then lo else if x > hi then hi else x)"

text \<open>The stream of a run that resolves the channel and lists the videos \<open>ids\<close>.\<close>

definition success_stream :: "upstream \<Rightarrow> string list \<Rightarrow> event list" where
  "success_stream w ids =
     [Status ''Resolving channel...'' 0, Status ''Fetching video list...'' 5,
      Status (''Found '' @ show_nat (length ids) @ '' videos. Downloading metadata...'') 10]
     @ map (\<lambda>j. downloading_status j (length ids)) [0..<length ids]
     @ [Status ''Done!'' 100, Result (map (fetch_entry w) ids)]"

section \<open>Example inputs\<close>

definition quoted :: "string \<Rightarrow> string" where
  "quoted s = [dquote] @ s @ [dquote]"

definition video_node :: "string \<Rightarrow> json" where
  "video_node vid = JObj [(''videoId'', JStr vid)]"

definition example_channel_page :: string where
  "example_channel_page =
     ''<html>'' @ quoted ''externalId'' @ '':'' @ quoted ''UCabcdefghijklmnopqrstuv''
     @ ''</html>''"

definition example_first_page :: json where
  "example_first_page =
     JObj [(''contents'', JArr [video_node ''aaaaaaaaaa1'', video_node ''aaaaaaaaaa2'']),
           (''next'', JObj [(''continuationCommand'', JObj [(''token'', JStr ''page2'')])])]"

definition example_second_page :: json where
  "example_second_page =
     JObj [(''contents'', JArr [video_node ''aaaaaaaaaa2'', video_node ''aaaaaaaaaa3''])]"

definition example_player_response :: json where
  "example_player_response =
     JObj [(''videoDetails'',
            JObj [(''title'', JStr ''A title''),
                  (''lengthSeconds'', JStr ''212''),
                  (''viewCount'', JStr ''1000''),
                  (''thumbnail'', JObj [(''thumbnails'',
                     JArr [JObj [(''url'', JStr ''default.jpg''),
                                 (''width'', JNum 120), (''height'', JNum 90)],
                           JObj [(''url'', JStr ''maxresdefault.jpg''),
                                 (''width'', JNum 1280), (''height'', JNum 720)]])])])]"

definition example_watch_page :: string where
  "example_watch_page =
     ''{'' @ quoted ''defaultIcon'' @ '':{},'' @ quoted ''label'' @ '':''
     @ quoted ''1,234 likes'' @ '','' @ quoted ''commentCount'' @ '':{''
     @ quoted ''simpleText'' @ '':'' @ quoted ''56'' @ ''}}''"

text \<open>
  A channel of three videos listed over two pages; the player request for the second
  video fails.
\<close>

definition example_upstream :: upstream where
  "example_upstream =
     \<lparr> channel_page = (\<lambda>u. Inr example_channel_page),
       browse = \<lparr> browse_channel = (\<lambda>c. Inr example_first_page),
                  browse_continuation = (\<lambda>k tok. Inr example_second_page) \<rparr>,
       player = (\<lambda>vid. if vid = ''aaaaaaaaaa2'' then Inl (FetchError ''fetch failed'')
                        else Inr example_player_response),
       transcript_segments = (\<lambda>vid. None),
       watch_page = (\<lambda>vid. Inr example_watch_page) \<rparr>"

text \<open>The same channel when the request for the second page fails.\<close>

definition failing_browse :: browse_api where
  "failing_browse =
     \<lparr> browse_channel = (\<lambda>c. Inr example_first_page),
       browse_continuation = (\<lambda>k tok. Inl (FetchError ''fetch failed'')) \<rparr>"

definition example_body :: json where
  "example_body =
     JObj [(''channelUrl'', JStr ''https://www.youtube.com/@veritasium''),
           (''maxVideos'', JNum 3)]"

definition example_record :: VideoRecord where
  "example_record =
     \<lparr> videoId = ''aaaaaaaaaa1'', title = JStr ''A title'', description = JStr [],
       duration = 212, viewCount = 1000, likeCount = None, commentCount = None,
       releaseDate = JStr [], videoUrl = ''https://www.youtube.com/watch?v=aaaaaaaaaa1'',
       thumbnailUrl = JStr ''maxresdefault.jpg'', transcript = None \<rparr>"

section \<open>Verified properties\<close>

subsection \<open>Continuation Locator\<close>

lemma first_some_append:
  "first_some f (xs @ ys) =
     (case first_some f xs of Some y \<Rightarrow> Some y | None \<Rightarrow> first_some f ys)"
  by (induction xs) (auto split: option.splits)

lemma truthy_opt_case:
  "truthy_opt x \<Longrightarrow> (case x of None \<Rightarrow> d | Some y \<Rightarrow> Some y) = x"
  by (cases x) auto

lemma usable_match_not_object:
  "\<not> truthy j \<or> \<not> typeof_object j \<Longrightarrow> usable_match j = None"
  by (cases j) (auto simp: usable_match_def)

lemma usable_match_array: "usable_match (JArr xs) = None"
  by (simp add: usable_match_def)

lemma preorder_object_values:
  "truthy j \<Longrightarrow> typeof_object j \<Longrightarrow>
   preorder j = j # concat (map preorder (object_values j))"
  by (cases j) auto

text \<open>
  C6, as stated, fails. With a match defined by the mere presence of the fields, the first
  match of the document
  \<^verbatim>\<open>{header: {continuationCommand: {token: ''}}, body: {continuationCommand: {token: 'T2'}}}\<close>
  in depth-first, left-to-right order is the empty token under \<^verbatim>\<open>header\<close>;
  \<^verbatim>\<open>findContinuationToken\<close> tests the token for truthiness, passes over it and returns
  the token under \<^verbatim>\<open>body\<close>.
\<close>

theorem C6_presence_match_counterexample:
  "spec_locator
     (JObj [(''header'', JObj [(''continuationCommand'', JObj [(''token'', JStr [])])]),
            (''body'', JObj [(''continuationCommand'', JObj [(''token'', JStr ''T2'')])])])
     = Some (JStr [])
   \<and> findContinuationToken
     (JObj [(''header'', JObj [(''continuationCommand'', JObj [(''token'', JStr [])])]),
            (''body'', JObj [(''continuationCommand'', JObj [(''token'', JStr ''T2'')])])])
     = Some (JStr ''T2'')"
  by (simp add: spec_locator_def spec_match_def)

text \<open>
  C6, amended: for every document, the Continuation Locator returns the token of the first
  node, in depth-first left-to-right order (a node before its children, children in
  enumeration order), that is an object whose \<^verbatim>\<open>continuationCommand\<close> carries a truthy
  \<^verbatim>\<open>token\<close>, or else an object with a truthy \<^verbatim>\<open>token\<close> and a truthy
  \<^verbatim>\<open>continuationEndpoint\<close>; it returns no token when no node matches in this sense.
\<close>

theorem C6_locator_returns_first_usable_match:
  "findContinuationToken doc = first_some usable_match (preorder doc)"
proof -
  have "findContinuationToken obj = first_some usable_match (preorder obj)"
    and "find_in_values vs = first_some usable_match (concat (map preorder vs))"
    and "find_in_items items = first_some usable_match (concat (map preorder items))"
    for obj vs items
  proof (induction obj and vs and items
      rule: findContinuationToken_find_in_values_find_in_items.induct)
    case (1 obj)
    show ?case
    proof (cases "\<not> truthy obj \<or> \<not> typeof_object obj")
      case True
      then have "preorder obj = [obj]" by (cases obj) auto
      with True show ?thesis using usable_match_not_object [of obj] by simp
    next
      case False
      then show ?thesis using 1 preorder_object_values [of obj]
        by (auto simp: usable_match_def truthy_opt_case)
    qed
  next
    case (3 items vs)
    then show ?case
      by (simp add: first_some_append usable_match_array split: option.splits)
  next
    case (6 item items)
    then show ?case by (simp add: first_some_append split: option.splits)
  qed (simp_all add: first_some_append usable_match_not_object split: option.splits)
  then show ?thesis by simp
qed

text \<open>
  A document with a token under two branches, the first of them nested in an array: the
  one under \<^verbatim>\<open>header\<close> is returned.
\<close>

theorem C6_locator_two_branches_witness:
  "findContinuationToken
     (JObj [(''header'', JArr [JNum 1,
               JObj [(''token'', JStr ''T1''), (''continuationEndpoint'', JObj [])]]),
            (''body'', JObj [(''continuationCommand'', JObj [(''token'', JStr ''T2'')])])])
   = Some (JStr ''T1'')"
  using C6_locator_returns_first_usable_match
    [of "JObj [(''header'', JArr [JNum 1,
               JObj [(''token'', JStr ''T1''), (''continuationEndpoint'', JObj [])]]),
            (''body'', JObj [(''continuationCommand'', JObj [(''token'', JStr ''T2'')])])]"]
  by (simp add: usable_match_def)

lemma found_token_truthy:
  "findContinuationToken obj = Some t \<Longrightarrow> truthy t"
  "find_in_values vs = Some t \<Longrightarrow> truthy t"
  "find_in_items items = Some t \<Longrightarrow> truthy t"
proof (induction obj and vs and items
      rule: findContinuationToken_find_in_values_find_in_items.induct)
  case (1 obj)
  then show ?case
    by (auto split: if_splits)
next
  case (3 items vs)
  then show ?case by (auto split: option.splits)
next
  case (6 item items)
  then show ?case by (auto split: option.splits)
qed (auto split: option.splits if_splits)


subsection \<open>Identifier Resolver\<close>

lemma regex_search_Some:
  "regex_search m s = Some r \<Longrightarrow> \<exists>t. m t = Some r"
  by (induction s) (auto split: option.splits)

lemma channel_marker_shape:
  assumes "channel_marker name t = Some cid"
  shows "\<exists>run. cid = ''UC'' @ run \<and> run \<noteq> [] \<and> dquote \<notin> set run"
proof -
  from assms obtain r where
    cid: "cid = ''UC'' @ takeWhile (\<lambda>c. c \<noteq> dquote) r"
    and ne: "takeWhile (\<lambda>c. c \<noteq> dquote) r \<noteq> []"
    unfolding channel_marker_def Let_def
    by (cases "strip_prefix ([dquote] @ name @ [dquote] @ '':'' @ [dquote] @ ''UC'') t")
       (auto split: if_splits)
  have "dquote \<notin> set (takeWhile (\<lambda>c. c \<noteq> dquote) r)"
    using set_takeWhileD by fastforce
  with cid ne show ?thesis by blast
qed

lemma resolved_by_marker:
  assumes "resolveChannelId page = Inr (Some cid)"
  shows "\<exists>name html. regex_search (channel_marker name) html = Some cid"
proof -
  from assms obtain html where page: "page = Inr html"
    by (cases page) (simp_all add: resolveChannelId_def)
  show ?thesis
  proof (cases "regex_search (channel_marker ''externalId'') html")
    case None
    with assms page have "regex_search (channel_marker ''channelId'') html = Some cid"
      by (simp add: resolveChannelId_def)
    then show ?thesis by (intro exI)
  next
    case (Some x)
    with assms page have "x = cid" by (simp add: resolveChannelId_def)
    with Some have "regex_search (channel_marker ''externalId'') html = Some cid" by simp
    then show ?thesis by (intro exI)
  qed
qed

lemma resolved_id_nonempty:
  assumes "resolveChannelId page = Inr (Some cid)"
  shows "cid \<noteq> []"
proof -
  from resolved_by_marker [OF assms] obtain name html
    where found: "regex_search (channel_marker name) html = Some cid" by (elim exE)
  from regex_search_Some [OF found] obtain t where "channel_marker name t = Some cid" ..
  from channel_marker_shape [OF this] show ?thesis by auto
qed

text \<open>
  C9, as stated, fails. The patterns of \<^verbatim>\<open>resolveChannelId\<close> capture \<^verbatim>\<open>UC\<close> and every
  character up to the next quote; they do not count characters. On a page holding
  \<^verbatim>\<open>"externalId":"UCx"\<close> the resolver returns the three-character identifier
  \<^verbatim>\<open>UCx\<close>.
\<close>

theorem C9_short_identifier_counterexample:
  "resolveChannelId
     (Inr ([dquote] @ ''externalId'' @ [dquote] @ '':'' @ [dquote] @ ''UCx'' @ [dquote]))
     = Inr (Some ''UCx'')
   \<and> length ''UCx'' \<noteq> 24"
  by code_simp

text \<open>
  C9, amended: whenever the resolver returns an identifier rather than \<^verbatim>\<open>null\<close>, the
  identifier is the two characters \<^verbatim>\<open>UC\<close> followed by at least one further
  character, none of which is a double quote; its length is not otherwise constrained.
\<close>

theorem C9_resolved_id_prefix:
  assumes "resolveChannelId page = Inr (Some cid)"
  shows "\<exists>run. cid = ''UC'' @ run \<and> run \<noteq> [] \<and> dquote \<notin> set run"
proof -
  from resolved_by_marker [OF assms] obtain name html
    where found: "regex_search (channel_marker name) html = Some cid" by (elim exE)
  from regex_search_Some [OF found] obtain t where "channel_marker name t = Some cid" ..
  then show ?thesis by (rule channel_marker_shape)
qed

text \<open>A page whose only marker is the general one, holding a 24-character identifier.\<close>

theorem C9_resolved_id_prefix_witness:
  "resolveChannelId
     (Inr (''<html>'' @ [dquote] @ ''channelId'' @ [dquote] @ '':'' @ [dquote] @
           ''UCabcdefghijklmnopqrstuv'' @ [dquote] @ ''</html>''))
     = Inr (Some ''UCabcdefghijklmnopqrstuv'')
   \<and> (\<exists>run. ''UCabcdefghijklmnopqrstuv'' = ''UC'' @ run \<and> run \<noteq> []
          \<and> dquote \<notin> set run)"
proof -
  have h: "resolveChannelId
     (Inr (''<html>'' @ [dquote] @ ''channelId'' @ [dquote] @ '':'' @ [dquote] @
           ''UCabcdefghijklmnopqrstuv'' @ [dquote] @ ''</html>''))
     = Inr (Some ''UCabcdefghijklmnopqrstuv'')"
    by code_simp
  show ?thesis by (rule conjI [OF h C9_resolved_id_prefix [OF h]])
qed

subsection \<open>Video ID Extractor and Video Enumerator\<close>

lemma fo_append:
  "first_occurrences acc (xs @ ys) = first_occurrences (first_occurrences acc xs) ys"
  by (induction xs arbitrary: acc) simp_all

lemma fo_prefix: "\<exists>zs. first_occurrences acc xs = acc @ zs"
proof (induction xs arbitrary: acc)
  case Nil
  then show ?case by simp
next
  case (Cons x xs)
  from Cons.IH [of "if x \<in> set acc then acc else acc @ [x]"]
  show ?case by (auto split: if_splits)
qed

lemma fo_distinct: "distinct acc \<Longrightarrow> distinct (first_occurrences acc xs)"
  by (induction xs arbitrary: acc) simp_all

lemma fo_take_full:
  assumes "m \<le> length acc"
  shows "take m (first_occurrences acc xs) = take m acc"
proof -
  from fo_prefix obtain zs where "first_occurrences acc xs = acc @ zs" by blast
  with assms show ?thesis by simp
qed

lemma fo_length_le: "m \<le> length acc \<Longrightarrow> m \<le> length (first_occurrences acc xs)"
proof -
  assume a: "m \<le> length acc"
  from fo_prefix obtain zs where "first_occurrences acc xs = acc @ zs" by blast
  with a show ?thesis by simp
qed

lemma take_eq_short:
  assumes "take m a = take m b" "length a < m"
  shows "a = b"
proof -
  from assms(1) have "length (take m a) = length (take m b)" by simp
  with assms(2) have "length b < m" by simp
  with assms show ?thesis by simp
qed

lemma fo_take_cong:
  assumes "take m a = take m b"
  shows "take m (first_occurrences a xs) = take m (first_occurrences b xs)"
proof (cases "length a < m")
  case True
  with assms have "a = b" by (rule take_eq_short)
  then show ?thesis by simp
next
  case False
  then have la: "m \<le> length a" by simp
  from assms have "length (take m a) = length (take m b)" by simp
  with la have lb: "m \<le> length b" by simp
  from la lb assms show ?thesis by (simp add: fo_take_full)
qed

lemma push_videoId_fo: "push_videoId obj acc = first_occurrences acc (node_videoId obj)"
  by (auto simp: push_videoId_def node_videoId_def split: option.splits json.splits)

lemma node_videoId_not_object:
  "\<not> truthy j \<or> \<not> typeof_object j \<Longrightarrow> node_videoId j = []"
  by (cases j) (auto simp: node_videoId_def)

lemma node_videoId_array: "node_videoId (JArr xs) = []"
  by (simp add: node_videoId_def)

lemma documents_videoIds_simps [simp]:
  "documents_videoIds [] = []"
  "documents_videoIds (d # ds) = document_videoIds d @ documents_videoIds ds"
  by (simp_all add: documents_videoIds_def)

lemma concat_preorder:
  "concat (map node_videoId (concat (map preorder js))) = documents_videoIds js"
  by (induction js) (simp_all add: document_videoIds_def)

lemma document_videoIds_values:
  "truthy j \<Longrightarrow> typeof_object j \<Longrightarrow>
   document_videoIds j = node_videoId j @ documents_videoIds (object_values j)"
  by (simp add: document_videoIds_def preorder_object_values concat_preorder)

lemma document_videoIds_not_object:
  "\<not> truthy j \<or> \<not> typeof_object j \<Longrightarrow> document_videoIds j = []"
  by (cases j) (auto simp: document_videoIds_def node_videoId_def)

lemma document_videoIds_array:
  "document_videoIds (JArr items) = documents_videoIds items"
  by (simp add: document_videoIds_values node_videoId_array)

lemma extract_step:
  assumes "take m a = take m (first_occurrences acc xs)"
    and "take m b = take m (first_occurrences a ys)"
  shows "take m b = take m (first_occurrences acc (xs @ ys))"
  using fo_take_cong [OF assms(1), of ys] assms(2) by (simp add: fo_append)

lemma extract_take:
  "take m (extractVideoIds m obj acc) = take m (first_occurrences acc (document_videoIds obj))"
  "take m (extract_values m vals acc) = take m (first_occurrences acc (documents_videoIds vals))"
  "take m (extract_forEach m items acc) = take m (first_occurrences acc (documents_videoIds items))"
proof (induction m obj acc and m vals acc and m items acc
    rule: extractVideoIds_extract_values_extract_forEach.induct, goal_cases)
  case (1 m obj acc)
  show ?case
  proof (cases "\<not> truthy obj \<or> \<not> typeof_object obj")
    case True
    then show ?thesis by (simp add: document_videoIds_not_object)
  next
    case False
    with 1 show ?thesis
      by (simp add: document_videoIds_values fo_append push_videoId_fo)
  qed
next
  case (2 m acc)
  show ?case by simp
next
  case (3 m items vals acc)
  show ?case
  proof (cases "m \<le> length acc")
    case True
    then show ?thesis by (simp add: fo_take_full)
  next
    case False
    with 3 have a: "take m (extract_forEach m items acc)
        = take m (first_occurrences acc (documents_videoIds items))"
      and b: "take m (extract_values m vals (extract_forEach m items acc))
        = take m (first_occurrences (extract_forEach m items acc) (documents_videoIds vals))"
      by simp_all
    from extract_step [OF a b] False show ?thesis
      by (simp add: document_videoIds_array)
  qed
next
  case (4 m vals acc)
  then show ?case
    by (cases "m \<le> length acc") (simp_all add: fo_take_full document_videoIds_not_object)
next
  case (5 m b vals acc)
  then show ?case
    by (cases "m \<le> length acc") (simp_all add: fo_take_full document_videoIds_not_object)
next
  case (6 m n vals acc)
  then show ?case
    by (cases "m \<le> length acc") (simp_all add: fo_take_full document_videoIds_not_object)
next
  case (7 m s vals acc)
  then show ?case
    by (cases "m \<le> length acc") (simp_all add: fo_take_full document_videoIds_not_object)
next
  case (8 m kvs vals acc)
  show ?case
  proof (cases "m \<le> length acc")
    case True
    then show ?thesis by (simp add: fo_take_full)
  next
    case False
    with 8 have a: "take m (extractVideoIds m (JObj kvs) acc)
        = take m (first_occurrences acc (document_videoIds (JObj kvs)))"
      and b: "take m (extract_values m vals (extractVideoIds m (JObj kvs) acc))
        = take m (first_occurrences (extractVideoIds m (JObj kvs) acc)
            (documents_videoIds vals))"
      by simp_all
    from extract_step [OF a b] False show ?thesis by simp
  qed
next
  case (9 m acc)
  show ?case by simp
next
  case (10 m item items acc)
  then have a: "take m (extractVideoIds m item acc)
        = take m (first_occurrences acc (document_videoIds item))"
    and b: "take m (extract_forEach m items (extractVideoIds m item acc))
        = take m (first_occurrences (extractVideoIds m item acc) (documents_videoIds items))"
    by simp_all
  from extract_step [OF a b] show ?case by simp
qed

lemma extract_distinct:
  "distinct acc \<Longrightarrow> distinct (extractVideoIds m obj acc)"
  "distinct acc \<Longrightarrow> distinct (extract_values m vals acc)"
  "distinct acc \<Longrightarrow> distinct (extract_forEach m items acc)"
proof (induction m obj acc and m vals acc and m items acc
    rule: extractVideoIds_extract_values_extract_forEach.induct)
  case (1 m obj acc)
  then show ?case by (simp add: push_videoId_fo fo_distinct)
qed simp_all

declare extractVideoIds.simps(1) [simp del] findContinuationToken.simps(1) [simp del]

lemma documents_videoIds_append:
  "documents_videoIds (xs @ ys) = documents_videoIds xs @ documents_videoIds ys"
  by (simp add: documents_videoIds_def)

lemma enum_inv_first: "enum_inv api m d0 (first_page m d0)"
  using extract_take(1) [of m d0 "[]"] extract_distinct(1) [of "[]" m d0]
  by (simp add: enum_inv_def first_page_def discovery_order_def)

lemma enum_inv_step:
  assumes inv: "enum_inv api m d0 st" and r: "browse_round api m st = Continue st'"
  shows "enum_inv api m d0 st'"
proof -
  from r obtain tok d where
    guard: "length (videoIds st) < m" "attempts st < 10"
    and tok: "findContinuationToken (data st) = Some tok"
    and d: "browse_continuation api (attempts st + 1) tok = Inr d"
    and st': "st' = \<lparr> videoIds = extractVideoIds m d (videoIds st), data = d,
                      attempts = attempts st + 1, sent = sent st @ [tok],
                      pages = pages st @ [d] \<rparr>"
    by (auto simp: browse_round_def split: if_splits option.splits sum.splits)
  from inv have dist: "distinct (videoIds st)"
    and tk: "take m (videoIds st) = take m (discovery_order (pages st))"
    and att: "attempts st = length (sent st)"
    and len: "length (pages st) = Suc (length (sent st))"
    and dat: "data st = last (pages st)"
    and p0: "pages st ! 0 = d0"
    and trace: "list_all (\<lambda>k. findContinuationToken (pages st ! k) = Some (sent st ! k)
                      \<and> browse_continuation api (Suc k) (sent st ! k) = Inr (pages st ! Suc k))
            [0..<length (sent st)]"
    and below: "list_all (\<lambda>k. length (discovery_order (take (Suc k) (pages st))) < m)
            [0..<length (sent st)]"
    by (simp_all add: enum_inv_def)
  from tk guard(1) have full: "videoIds st = discovery_order (pages st)"
    by (rule take_eq_short)
  have 1: "distinct (videoIds st')"
    unfolding st' using dist by (simp add: extract_distinct)
  have 2: "take m (videoIds st') = take m (discovery_order (pages st'))"
    unfolding st' using extract_take(1) [of m d "videoIds st"]
    by (simp add: full discovery_order_def documents_videoIds_append fo_append)
  from len have ne: "pages st \<noteq> []" by auto
  from len ne dat have dat': "data st = pages st ! length (sent st)"
    by (simp add: last_conv_nth)
  have 3: "list_all (\<lambda>k. findContinuationToken (pages st' ! k) = Some (sent st' ! k)
                      \<and> browse_continuation api (Suc k) (sent st' ! k) = Inr (pages st' ! Suc k))
            [0..<length (sent st')]"
    unfolding st' using trace tok d len att dat'
    by (auto simp: list_all_iff nth_append less_Suc_eq)
  have 4: "list_all (\<lambda>k. length (discovery_order (take (Suc k) (pages st'))) < m)
            [0..<length (sent st')]"
    unfolding st' using below len guard(1) full
    by (auto simp: list_all_iff less_Suc_eq)
  from att guard(2) len p0 ne show ?thesis
    unfolding enum_inv_def using 1 2 3 4 by (simp add: st' nth_append)
qed

lemma browse_loop_total:
  assumes "\<forall>k tok. \<exists>d. browse_continuation api k tok = Inr d"
    and "enum_inv api m d0 st"
  shows "\<exists>st'. browse_loop api m st = Inr st' \<and> enum_inv api m d0 st'
           \<and> (m \<le> length (videoIds st') \<or> findContinuationToken (data st') = None
                \<or> length (sent st') = 10)"
  using assms
proof (induction api m st rule: browse_loop.induct)
  case (1 api m st)
  note ok = "1.prems"(1) and inv = "1.prems"(2)
  show ?case
  proof (cases "browse_round api m st")
    case Done
    then have l: "browse_loop api m st = Inr st"
      by (subst browse_loop.simps) simp
    from Done have "m \<le> length (videoIds st) \<or> findContinuationToken (data st) = None
                \<or> 10 \<le> attempts st"
      using found_token_truthy(1) [of "data st"]
      by (auto simp: browse_round_def split: if_splits option.splits sum.splits)
    with inv have "m \<le> length (videoIds st) \<or> findContinuationToken (data st) = None
                \<or> length (sent st) = 10"
      by (auto simp: enum_inv_def)
    with l inv show ?thesis by simp
  next
    case (Raised err)
    then obtain tok where "browse_continuation api (attempts st + 1) tok = Inl err"
      by (auto simp: browse_round_def split: if_splits option.splits sum.splits)
    moreover from ok obtain d where "browse_continuation api (attempts st + 1) tok = Inr d"
      by blast
    ultimately show ?thesis by simp
  next
    case (Continue st1)
    then have l: "browse_loop api m st = browse_loop api m st1"
      by (subst browse_loop.simps) simp
    from enum_inv_step [OF inv Continue] have "enum_inv api m d0 st1" .
    from "1.IH" [OF Continue ok this] l show ?thesis by simp
  qed
qed

text \<open>
  C5: when the browse endpoint answers every request, enumeration returns; the sequence
  returned has at most \<open>maxVideos\<close> identifiers and no duplicates, and is the first
  \<open>maxVideos\<close> identifiers, in discovery order, of the documents received. These are the
  answer to the initial request followed by one answer for each continuation token sent,
  each token being the one located in the document before it. At most 10 tokens are
  sent, and each of them is sent only while the documents received until then hold
  fewer than \<open>maxVideos\<close> identifiers: once the limit is reached no further request is
  made. The loop stops because the limit is reached, because the last document holds no
  token, or because 10 tokens have been sent. When the documents hold no identifier the
  result is the empty sequence.
\<close>

theorem C5_enumeration_bounded:
  assumes "browse_channel api channelId = Inr d0"
    and "\<forall>k tok. \<exists>d. browse_continuation api k tok = Inr d"
  shows "\<exists>st. enumerate_run api channelId m = Inr st
       \<and> fetchChannelVideoIds api channelId m = Inr (take m (videoIds st))
       \<and> length (take m (videoIds st)) \<le> m
       \<and> distinct (take m (videoIds st))
       \<and> take m (videoIds st) = take m (discovery_order (pages st))
       \<and> pages st ! 0 = d0
       \<and> length (pages st) = Suc (length (sent st))
       \<and> list_all (\<lambda>k. findContinuationToken (pages st ! k) = Some (sent st ! k)
                      \<and> browse_continuation api (Suc k) (sent st ! k) = Inr (pages st ! Suc k))
            [0..<length (sent st)]
       \<and> list_all (\<lambda>k. length (discovery_order (take (Suc k) (pages st))) < m)
            [0..<length (sent st)]
       \<and> length (sent st) \<le> 10
       \<and> (m \<le> length (discovery_order (pages st))
            \<or> findContinuationToken (last (pages st)) = None
            \<or> length (sent st) = 10)
       \<and> (m \<le> length (videoIds st) \<or> findContinuationToken (last (pages st)) = None
            \<or> length (sent st) = 10)
       \<and> (documents_videoIds (pages st) = [] \<longrightarrow>
            fetchChannelVideoIds api channelId m = Inr [])"
proof -
  from browse_loop_total [OF assms(2) enum_inv_first [of api m d0]]
  obtain st where l: "browse_loop api m (first_page m d0) = Inr st"
    and inv: "enum_inv api m d0 st"
    and stop: "m \<le> length (videoIds st) \<or> findContinuationToken (data st) = None
                \<or> length (sent st) = 10"
    by blast
  from l assms(1) have e: "enumerate_run api channelId m = Inr st"
    by (simp add: enumerate_run_def)
  then have f: "fetchChannelVideoIds api channelId m = Inr (take m (videoIds st))"
    by (simp add: fetchChannelVideoIds_def)
  from inv have tk: "take m (videoIds st) = take m (discovery_order (pages st))"
    by (simp add: enum_inv_def)
  from inv have "distinct (videoIds st)"
    by (simp add: enum_inv_def)
  then have dist: "distinct (take m (videoIds st))"
    by (rule distinct_take)
  from inv have p0: "pages st ! 0 = d0" and len: "length (pages st) = Suc (length (sent st))"
    and trace: "list_all (\<lambda>k. findContinuationToken (pages st ! k) = Some (sent st ! k)
                      \<and> browse_continuation api (Suc k) (sent st ! k) = Inr (pages st ! Suc k))
            [0..<length (sent st)]"
    and below: "list_all (\<lambda>k. length (discovery_order (take (Suc k) (pages st))) < m)
            [0..<length (sent st)]"
    and ten: "length (sent st) \<le> 10"
    and dat: "data st = last (pages st)"
    by (simp_all add: enum_inv_def)
  from stop dat have stop': "m \<le> length (videoIds st)
      \<or> findContinuationToken (last (pages st)) = None \<or> length (sent st) = 10"
    by simp
  have "m \<le> length (discovery_order (pages st))" if "m \<le> length (videoIds st)"
  proof -
    from tk have "length (take m (videoIds st)) = length (take m (discovery_order (pages st)))"
      by simp
    with that show ?thesis by simp
  qed
  with stop' have stop'': "m \<le> length (discovery_order (pages st))
      \<or> findContinuationToken (last (pages st)) = None \<or> length (sent st) = 10"
    by blast
  have empty: "documents_videoIds (pages st) = [] \<longrightarrow>
            fetchChannelVideoIds api channelId m = Inr []"
    using f tk by (simp add: discovery_order_def)
  from e f tk dist p0 len trace below ten stop'' stop' empty show ?thesis
    by (intro exI [of _ st] conjI) simp_all
qed

text \<open>
  The example channel. With a limit of 3 the first page holds too few identifiers and a
  second page is requested; with a limit of 2 the first page reaches the limit and no
  token is sent.
\<close>

theorem C5_enumeration_bounded_witness:
  "(\<exists>st. enumerate_run (browse example_upstream) ''UCabcdefghijklmnopqrstuv'' 3 = Inr st
      \<and> take 3 (videoIds st) = [''aaaaaaaaaa1'', ''aaaaaaaaaa2'', ''aaaaaaaaaa3'']
      \<and> take 3 (videoIds st) = take 3 (discovery_order (pages st))
      \<and> length (sent st) \<le> 10)
   \<and> (\<exists>st. enumerate_run (browse example_upstream) ''UCabcdefghijklmnopqrstuv'' 2 = Inr st
      \<and> take 2 (videoIds st) = [''aaaaaaaaaa1'', ''aaaaaaaaaa2'']
      \<and> sent st = []
      \<and> pages st = [example_first_page])"
proof -
  have h1: "browse_channel (browse example_upstream) ''UCabcdefghijklmnopqrstuv''
      = Inr example_first_page"
    by (simp add: example_upstream_def)
  have h2: "\<forall>k tok. \<exists>d. browse_continuation (browse example_upstream) k tok = Inr d"
    by (simp add: example_upstream_def)
  have three: "\<exists>st. enumerate_run (browse example_upstream) ''UCabcdefghijklmnopqrstuv'' 3 = Inr st
      \<and> take 3 (videoIds st) = [''aaaaaaaaaa1'', ''aaaaaaaaaa2'', ''aaaaaaaaaa3'']
      \<and> take 3 (videoIds st) = take 3 (discovery_order (pages st))
      \<and> length (sent st) \<le> 10"
  proof -
    have v: "fetchChannelVideoIds (browse example_upstream) ''UCabcdefghijklmnopqrstuv'' 3
        = Inr [''aaaaaaaaaa1'', ''aaaaaaaaaa2'', ''aaaaaaaaaa3'']"
      by code_simp
    from C5_enumeration_bounded [OF h1 h2, of 3] obtain st where
      e: "enumerate_run (browse example_upstream) ''UCabcdefghijklmnopqrstuv'' 3 = Inr st"
      and f: "fetchChannelVideoIds (browse example_upstream) ''UCabcdefghijklmnopqrstuv'' 3
          = Inr (take 3 (videoIds st))"
      and o: "take 3 (videoIds st) = take 3 (discovery_order (pages st))"
      and t: "length (sent st) \<le> 10"
      by (elim exE conjE)
    from f v have "take 3 (videoIds st) = [''aaaaaaaaaa1'', ''aaaaaaaaaa2'', ''aaaaaaaaaa3'']"
      by simp
    with e o t show ?thesis by (intro exI [of _ st] conjI)
  qed
  have two: "\<exists>st. enumerate_run (browse example_upstream) ''UCabcdefghijklmnopqrstuv'' 2 = Inr st
      \<and> take 2 (videoIds st) = [''aaaaaaaaaa1'', ''aaaaaaaaaa2'']
      \<and> sent st = []
      \<and> pages st = [example_first_page]"
  proof -
    have v: "fetchChannelVideoIds (browse example_upstream) ''UCabcdefghijklmnopqrstuv'' 2
        = Inr [''aaaaaaaaaa1'', ''aaaaaaaaaa2'']"
      by code_simp
    have d: "length (discovery_order [example_first_page]) = 2"
      by code_simp
    from C5_enumeration_bounded [OF h1 h2, of 2] obtain st where
      e: "enumerate_run (browse example_upstream) ''UCabcdefghijklmnopqrstuv'' 2 = Inr st"
      and f: "fetchChannelVideoIds (browse example_upstream) ''UCabcdefghijklmnopqrstuv'' 2
          = Inr (take 2 (videoIds st))"
      and p0: "pages st ! 0 = example_first_page"
      and len: "length (pages st) = Suc (length (sent st))"
      and below: "list_all (\<lambda>k. length (discovery_order (take (Suc k) (pages st))) < 2)
            [0..<length (sent st)]"
      by (elim exE conjE)
    from f v have ids: "take 2 (videoIds st) = [''aaaaaaaaaa1'', ''aaaaaaaaaa2'']"
      by simp
    have none: "sent st = []"
    proof (rule ccontr)
      assume "sent st \<noteq> []"
      then have pos: "0 < length (sent st)" by simp
      with below have "length (discovery_order (take (Suc 0) (pages st))) < 2"
        by (simp add: list_all_iff)
      moreover from len p0 have "take (Suc 0) (pages st) = [example_first_page]"
        by (cases "pages st") simp_all
      ultimately show False using d by simp
    qed
    with len p0 have "pages st = [example_first_page]"
      by (cases "pages st") simp_all
    with e ids none show ?thesis by (intro exI [of _ st] conjI)
  qed
  from three two show ?thesis by (rule conjI)
qed

subsection \<open>A failed continuation request\<close>

lemma after_rounds_loop:
  "after_rounds api m k st0 = Some st \<Longrightarrow> browse_loop api m st0 = browse_loop api m st"
proof (induction k arbitrary: st0)
  case 0
  then show ?case by simp
next
  case (Suc k)
  then obtain st1 where r: "browse_round api m st0 = Continue st1"
    and a: "after_rounds api m k st1 = Some st"
    by (cases "browse_round api m st0") auto
  from r have "browse_loop api m st0 = browse_loop api m st1"
    by (subst browse_loop.simps) simp
  with Suc.IH [OF a] show ?case by simp
qed

lemma failing_round:
  assumes "length (videoIds st) < m" "attempts st < 10"
    and "findContinuationToken (data st) = Some tok" "truthy tok"
    and "browse_continuation api (attempts st + 1) tok = Inl err"
  shows "browse_round api m st = Raised err"
  using assms by (simp add: browse_round_def)

text \<open>
  C3, as stated, fails. The continuation request of \<^verbatim>\<open>fetchChannelVideoIds\<close> is not
  inside a \<^verbatim>\<open>try\<close>. In the example channel with the second page failing, the first page
  yields two identifiers and a token; the failure of the request for that token leaves
  \<^verbatim>\<open>fetchChannelVideoIds\<close> by raising, the two identifiers are dropped, and the run ends
  with an error event.
\<close>

theorem C3_partial_list_counterexample:
  "videoIds (first_page 3 example_first_page) = [''aaaaaaaaaa1'', ''aaaaaaaaaa2'']
   \<and> fetchChannelVideoIds failing_browse ''UCabcdefghijklmnopqrstuv'' 3
       = Inl (FetchError ''fetch failed'')
   \<and> run_pipeline (example_upstream \<lparr> browse := failing_browse \<rparr>)
         (JStr ''https://www.youtube.com/@veritasium'') 3
       = [Status ''Resolving channel...'' 0, Status ''Fetching video list...'' 5,
          Error ''fetch failed'']"
  by code_simp

text \<open>
  C3, amended: when a continuation request that the enumeration issues fails, the failure
  leaves \<^verbatim>\<open>fetchChannelVideoIds\<close> as an error, whatever was collected so far, and the run
  ends with its status events followed by a single error event carrying the message; no
  result event is sent. The request in question is the one issued from the state \<open>st\<close>
  reached after \<open>k\<close> passes through the loop.
\<close>

theorem C3_failed_continuation_aborts:
  assumes "resolveChannelId (channel_page w u) = Inr (Some cid)"
    and "browse_channel (browse w) cid = Inr d"
    and "after_rounds (browse w) m k (first_page m d) = Some st"
    and "length (videoIds st) < m" and "attempts st < 10"
    and "findContinuationToken (data st) = Some tok"
    and "browse_continuation (browse w) (attempts st + 1) tok = Inl err"
  shows "fetchChannelVideoIds (browse w) cid m = Inl err
       \<and> run_pipeline w u m =
           [Status ''Resolving channel...'' 0, Status ''Fetching video list...'' 5,
            Error (message err)]"
proof -
  from assms(6) have "truthy tok" by (rule found_token_truthy(1))
  with assms have "browse_round (browse w) m st = Raised err"
    by (intro failing_round)
  then have "browse_loop (browse w) m st = Inl err"
    by (subst browse_loop.simps) simp
  with after_rounds_loop [OF assms(3)]
  have "browse_loop (browse w) m (first_page m d) = Inl err" by simp
  with assms(2) have f: "fetchChannelVideoIds (browse w) cid m = Inl err"
    by (simp add: fetchChannelVideoIds_def enumerate_run_def)
  from assms(1) have "cid \<noteq> []" by (rule resolved_id_nonempty)
  with assms(1) f have "run_pipeline w u m =
           [Status ''Resolving channel...'' 0, Status ''Fetching video list...'' 5,
            Error (message err)]"
    by (simp add: run_pipeline_def)
  with f show ?thesis by simp
qed

text \<open>The example channel with the second page failing: the first continuation request.\<close>

theorem C3_failed_continuation_aborts_witness:
  "fetchChannelVideoIds (browse (example_upstream \<lparr> browse := failing_browse \<rparr>))
       ''UCabcdefghijklmnopqrstuv'' 3 = Inl (FetchError ''fetch failed'')
   \<and> run_pipeline (example_upstream \<lparr> browse := failing_browse \<rparr>)
         (JStr ''https://www.youtube.com/@veritasium'') 3
       = [Status ''Resolving channel...'' 0, Status ''Fetching video list...'' 5,
          Error (message (FetchError ''fetch failed''))]"
proof -
  let ?w = "example_upstream \<lparr> browse := failing_browse \<rparr>"
  let ?st = "first_page 3 example_first_page"
  have 1: "resolveChannelId (channel_page ?w (JStr ''https://www.youtube.com/@veritasium''))
      = Inr (Some ''UCabcdefghijklmnopqrstuv'')"
    by code_simp
  have 2: "browse_channel (browse ?w) ''UCabcdefghijklmnopqrstuv'' = Inr example_first_page"
    by (simp add: failing_browse_def)
  have 3: "after_rounds (browse ?w) 3 0 ?st = Some ?st"
    by simp
  have 4: "length (videoIds ?st) < 3" by code_simp
  have 5: "attempts ?st < 10" by (simp add: first_page_def)
  have 6: "findContinuationToken (data ?st) = Some (JStr ''page2'')" by code_simp
  have 7: "browse_continuation (browse ?w) (attempts ?st + 1) (JStr ''page2'')
      = Inl (FetchError ''fetch failed'')"
    by (simp add: failing_browse_def)
  show ?thesis by (rule C3_failed_continuation_aborts [OF 1 2 3 4 5 6 7])
qed

subsection \<open>Request handling\<close>

lemma missing_channelUrl_rejected:
  "js_get body ''channelUrl'' = None \<Longrightarrow>
   channel_handler w body = BadRequest ''channelUrl required''"
  by (simp add: channel_handler_def)

lemma limit_default:
  "js_get body ''maxVideos'' = None \<Longrightarrow> effective_limit body = 10"
  by (simp add: effective_limit_def video_limit_def)

lemma limit_of_nonzero_integer:
  "js_get body ''maxVideos'' = Some (JNum n) \<Longrightarrow> n \<noteq> 0 \<Longrightarrow>
   int (effective_limit body) = clamp 1 100 n"
  by (simp add: effective_limit_def video_limit_def clamp_def)

text \<open>
  C7 says the limit is the supplied integer clamped to the range 1 to 100. The handler
  computes \<^verbatim>\<open>parseInt(maxVideos) || 10\<close> before clamping, and \<open>0\<close> is falsy: a request
  with \<^verbatim>\<open>maxVideos: 0\<close> runs with the limit 10, where the clamp of 0 is 1. Every other
  integer is clamped as stated, an absent value gives 10, and a missing
  \<^verbatim>\<open>channelUrl\<close> is rejected, as the three lemmas above show.
\<close>

theorem C7_zero_limit_is_ten:
  "effective_limit (JObj [(''channelUrl'', JStr ''https://www.youtube.com/@veritasium''),
                          (''maxVideos'', JNum 0)]) = 10
   \<and> clamp 1 100 0 = 1
   \<and> effective_limit (JObj [(''channelUrl'', JStr ''https://www.youtube.com/@veritasium''),
                          (''maxVideos'', JNum (- 1))]) = 1"
  by (simp add: effective_limit_def video_limit_def clamp_def)

subsection \<open>Metadata Fetcher\<close>

lemma json_or_videoDetails:
  "js_get_opt (js_get (json_or (js_get d ''videoDetails'') (JObj [])) ''thumbnail'') ''thumbnails''
   = js_get_opt (js_get_opt (js_get d ''videoDetails'') ''thumbnail'') ''thumbnails''"
proof (cases "js_get d ''videoDetails''")
  case None
  then show ?thesis by simp
next
  case (Some v)
  then show ?thesis by (cases v) auto
qed

text \<open>
  C8, as stated, fails. \<^verbatim>\<open>getVideoDetails\<close> takes the last entry of the thumbnail list
  (\<^verbatim>\<open>slice(-1)\<close>) and never reads a width or a height. For a player response that
  lists a 1280 by 720 thumbnail before a 120 by 90 one, the record carries the URL of the
  smaller, while the highest-resolution entry is the larger.
\<close>

theorem C8_highest_resolution_counterexample:
  "map_sum id thumbnailUrl
     (getVideoDetails ''dQw4w9WgXcQ''
        (Inr (JObj [(''videoDetails'', JObj [(''thumbnail'', JObj [(''thumbnails'',
           JArr [JObj [(''url'', JStr ''big''), (''width'', JNum 1280), (''height'', JNum 720)],
                 JObj [(''url'', JStr ''small''), (''width'', JNum 120), (''height'', JNum 90)]])])])]))
        None)
     = Inr (JStr ''small'')
   \<and> map_option (\<lambda>ts. js_get_opt (highest_resolution ts) ''url'')
       (thumbnail_list (JObj [(''videoDetails'', JObj [(''thumbnail'', JObj [(''thumbnails'',
           JArr [JObj [(''url'', JStr ''big''), (''width'', JNum 1280), (''height'', JNum 720)],
                 JObj [(''url'', JStr ''small''), (''width'', JNum 120), (''height'', JNum 90)]])])])]))
     = Some (Some (JStr ''big''))"
  by (simp add: getVideoDetails_def last_thumbnail_url_def thumbnail_list_def resolution_def)

text \<open>
  C8, amended: for every videoId and every upstream player response, the record returned
  by the metadata fetcher has \<^verbatim>\<open>thumbnailUrl\<close> equal to the \<^verbatim>\<open>url\<close> of the last entry of
  the upstream thumbnail list when that list is present and non-empty and that
  \<^verbatim>\<open>url\<close> is truthy, and otherwise equal to the fallback URL built from the videoId.
\<close>

theorem C8_thumbnail_is_last_entry:
  assumes "getVideoDetails vid response segments = Inr r"
  shows "\<exists>d. response = Inr d \<and>
     thumbnailUrl r =
       (case thumbnail_list d of
          None \<Rightarrow> JStr (fallback_thumbnail vid)
        | Some [] \<Rightarrow> JStr (fallback_thumbnail vid)
        | Some (t # ts) \<Rightarrow>
            json_or (js_get_opt (Some (last (t # ts))) ''url'') (JStr (fallback_thumbnail vid)))"
proof -
  from assms obtain d where d: "response = Inr d" and nn: "d \<noteq> JNull"
    by (cases response) (auto simp: getVideoDetails_def split: if_splits)
  define vd where "vd = json_or (js_get d ''videoDetails'') (JObj [])"
  from assms d nn obtain url where url: "last_thumbnail_url vd = Inr url"
    and r: "thumbnailUrl r = json_or url (JStr (fallback_thumbnail vid))"
    by (cases "last_thumbnail_url vd") (auto simp: getVideoDetails_def Let_def vd_def)
  have chain: "js_get_opt (js_get vd ''thumbnail'') ''thumbnails''
      = js_get_opt (js_get_opt (js_get d ''videoDetails'') ''thumbnail'') ''thumbnails''"
    unfolding vd_def by (rule json_or_videoDetails)
  have "json_or url (JStr (fallback_thumbnail vid)) =
       (case thumbnail_list d of
          None \<Rightarrow> JStr (fallback_thumbnail vid)
        | Some [] \<Rightarrow> JStr (fallback_thumbnail vid)
        | Some (t # ts) \<Rightarrow>
            json_or (js_get_opt (Some (last (t # ts))) ''url'') (JStr (fallback_thumbnail vid)))"
    using url unfolding last_thumbnail_url_def thumbnail_list_def chain
    by (auto split: option.splits json.splits list.splits)
  with d r show ?thesis by simp
qed

text \<open>The example player response, whose list ends with the largest thumbnail.\<close>

theorem C8_thumbnail_is_last_entry_witness:
  "getVideoDetails ''aaaaaaaaaa1'' (Inr example_player_response) None = Inr example_record
   \<and> thumbnailUrl example_record = JStr ''maxresdefault.jpg''"
proof -
  have h: "getVideoDetails ''aaaaaaaaaa1'' (Inr example_player_response) None
      = Inr example_record"
    by code_simp
  have l: "thumbnail_list example_player_response =
      Some [JObj [(''url'', JStr ''default.jpg''), (''width'', JNum 120), (''height'', JNum 90)],
            JObj [(''url'', JStr ''maxresdefault.jpg''),
                  (''width'', JNum 1280), (''height'', JNum 720)]]"
    by code_simp
  from C8_thumbnail_is_last_entry [OF h] l
  have "thumbnailUrl example_record = JStr ''maxresdefault.jpg''"
    by simp
  with h show ?thesis by (rule conjI)
qed

subsection \<open>Engagement Enricher\<close>

text \<open>
  C10: for every record reference, store and outcome of the page request, the enricher
  returns normally, and what it returns is the reference it was given. No other object
  of the store changes, and the object itself changes at most in \<^verbatim>\<open>likeCount\<close> and
  \<^verbatim>\<open>commentCount\<close>. Each of the two is overwritten exactly when the page was fetched and
  its pattern matches there, and otherwise keeps its value.
\<close>

theorem C10_enricher_frame:
  "\<exists>heap'. enrichWithEngagementData page videoInfo heap = Inr (videoInfo, heap')
     \<and> (\<forall>other. other \<noteq> videoInfo \<longrightarrow> heap' other = heap other)
     \<and> heap' videoInfo = (heap videoInfo)
           \<lparr> likeCount := likeCount (heap' videoInfo),
             commentCount := commentCount (heap' videoInfo) \<rparr>
     \<and> likeCount (heap' videoInfo) =
           (case page of
              Inl err \<Rightarrow> likeCount (heap videoInfo)
            | Inr html \<Rightarrow>
                (case regex_search like_pattern html of
                   None \<Rightarrow> likeCount (heap videoInfo)
                 | Some likeMatch \<Rightarrow> Some (parse_count likeMatch)))
     \<and> commentCount (heap' videoInfo) =
           (case page of
              Inl err \<Rightarrow> commentCount (heap videoInfo)
            | Inr html \<Rightarrow>
                (case regex_search comment_pattern html of
                   None \<Rightarrow> commentCount (heap videoInfo)
                 | Some commentMatch \<Rightarrow> Some (parse_count commentMatch)))"
proof -
  define r where "r = heap videoInfo"
  define r' where "r' = enrich_fields page r"
  have frame: "r' = r \<lparr> likeCount := likeCount r', commentCount := commentCount r' \<rparr>"
    unfolding r'_def enrich_fields_def enrich_try_def
    by (cases page) (auto simp: Let_def split: option.splits)
  have likes: "likeCount r' =
           (case page of
              Inl err \<Rightarrow> likeCount r
            | Inr html \<Rightarrow>
                (case regex_search like_pattern html of
                   None \<Rightarrow> likeCount r
                 | Some likeMatch \<Rightarrow> Some (parse_count likeMatch)))"
    unfolding r'_def enrich_fields_def enrich_try_def
    by (cases page) (auto simp: Let_def split: option.splits)
  have comments: "commentCount r' =
           (case page of
              Inl err \<Rightarrow> commentCount r
            | Inr html \<Rightarrow>
                (case regex_search comment_pattern html of
                   None \<Rightarrow> commentCount r
                 | Some commentMatch \<Rightarrow> Some (parse_count commentMatch)))"
    unfolding r'_def enrich_fields_def enrich_try_def
    by (cases page) (auto simp: Let_def split: option.splits)
  have "enrichWithEngagementData page videoInfo heap = Inr (videoInfo, heap (videoInfo := r'))"
    by (simp add: enrichWithEngagementData_def r'_def r_def)
  moreover have "\<forall>other. other \<noteq> videoInfo \<longrightarrow> (heap (videoInfo := r')) other = heap other"
    by simp
  moreover have "(heap (videoInfo := r')) videoInfo = r'" by simp
  ultimately show ?thesis
    using frame likes comments unfolding r_def by (intro exI [of _ "heap (videoInfo := r')"]) simp
qed

text \<open>The example watch page, on which both patterns match.\<close>

theorem C10_enricher_frame_witness:
  "\<exists>heap'. enrichWithEngagementData (Inr example_watch_page) 0 (\<lambda>r. example_record)
        = Inr (0, heap')
     \<and> heap' 1 = example_record
     \<and> heap' 0 = example_record \<lparr> likeCount := Some (Num 1234), commentCount := Some (Num 56) \<rparr>"
proof -
  have l: "regex_search like_pattern example_watch_page = Some ''1,234''" by code_simp
  have c: "regex_search comment_pattern example_watch_page = Some ''56''" by code_simp
  have pl: "parse_count ''1,234'' = Num 1234" by code_simp
  have pc: "parse_count ''56'' = Num 56" by code_simp
  from C10_enricher_frame [of "Inr example_watch_page" 0 "\<lambda>r. example_record"]
  obtain heap' where
    r: "enrichWithEngagementData (Inr example_watch_page) 0 (\<lambda>r. example_record)
        = Inr (0, heap')"
    and o: "\<forall>other. other \<noteq> 0 \<longrightarrow> heap' other = example_record"
    and f: "heap' 0 = example_record
           \<lparr> likeCount := likeCount (heap' 0), commentCount := commentCount (heap' 0) \<rparr>"
    and lk: "likeCount (heap' 0) = Some (parse_count ''1,234'')"
    and cm: "commentCount (heap' 0) = Some (parse_count ''56'')"
    by (auto simp: l c)
  from o have "heap' 1 = example_record" by simp
  moreover from f lk cm pl pc
  have "heap' 0 = example_record \<lparr> likeCount := Some (Num 1234), commentCount := Some (Num 56) \<rparr>"
    by simp
  ultimately show ?thesis using r by (intro exI [of _ heap'] conjI)
qed

subsection \<open>Pipeline orchestration and Progress Reporter\<close>

lemma video_loop_unfold:
  "video_loop w ids i videos out =
     (videos @ map (fetch_entry w) (drop i ids),
      out @ map (\<lambda>j. downloading_status j (length ids)) [i..<length ids])"
proof (induction w ids i videos out rule: video_loop.induct)
  case (1 w ids i videos out)
  show ?case
  proof (cases "i < length ids")
    case True
    then have d: "drop i ids = ids ! i # drop (Suc i) ids"
      by (simp add: Cons_nth_drop_Suc)
    from True have u: "[i..<length ids] = i # [Suc i..<length ids]"
      by (simp add: upt_conv_Cons)
    from True 1 show ?thesis
      by (subst video_loop.simps) (simp add: d u)
  next
    case False
    then show ?thesis by (subst video_loop.simps) simp
  qed
qed

lemma run_pipeline_cases:
  "run_pipeline w u m =
     (case resolveChannelId (channel_page w u) of
        Inl err \<Rightarrow> [Status ''Resolving channel...'' 0, Error (message err)]
      | Inr None \<Rightarrow>
          [Status ''Resolving channel...'' 0, Error ''Could not resolve channel ID from URL'']
      | Inr (Some cid) \<Rightarrow>
          (case fetchChannelVideoIds (browse w) cid m of
             Inl err \<Rightarrow>
               [Status ''Resolving channel...'' 0, Status ''Fetching video list...'' 5,
                Error (message err)]
           | Inr ids \<Rightarrow>
               if ids = []
               then [Status ''Resolving channel...'' 0, Status ''Fetching video list...'' 5,
                     Error ''No videos found for this channel'']
               else success_stream w ids))"
proof (cases "resolveChannelId (channel_page w u)")
  case (Inl err)
  then show ?thesis by (simp add: run_pipeline_def)
next
  case (Inr found)
  show ?thesis
  proof (cases found)
    case None
    with Inr show ?thesis by (simp add: run_pipeline_def)
  next
    case (Some cid)
    with Inr have "resolveChannelId (channel_page w u) = Inr (Some cid)" by simp
    then have "cid \<noteq> []" by (rule resolved_id_nonempty)
    with Inr Some show ?thesis
      by (simp add: run_pipeline_def Let_def video_loop_unfold success_stream_def
          split: sum.splits)
  qed
qed

lemma round_85_general:
  assumes "i < n" "10 * i \<noteq> 7 * n"
  shows "round_85 i n = (170 * i + n) div (2 * n)"
  using assms by (simp add: round_85_def)

lemma round_85_upper: "i < n \<Longrightarrow> round_85 i n \<le> 85"
proof -
  assume a: "i < n"
  have "(170 * i + n) div (2 * n) < 86"
  proof -
    from a have "170 * i + n < 86 * (2 * n)" by simp
    then show ?thesis using a by (simp add: div_less_iff_less_mult)
  qed
  then show ?thesis by (simp add: round_85_def)
qed

lemma round_85_mono:
  assumes "i \<le> j" "j < n"
  shows "round_85 i n \<le> round_85 j n"
proof (cases "i = j")
  case True
  then show ?thesis by simp
next
  case False
  with assms have lt: "i < j" by simp
  from assms have n: "0 < n" by simp
  show ?thesis
  proof (cases "10 * i = 7 * n")
    case True
    with lt have jn: "10 * j \<noteq> 7 * n" by simp
    from True lt have "59 * (2 * n) \<le> 170 * j + n" by simp
    then have "59 \<le> (170 * j + n) div (2 * n)"
      using n by (simp add: less_eq_div_iff_mult_less_eq)
    with True jn show ?thesis by (simp add: round_85_def)
  next
    case ni: False
    show ?thesis
    proof (cases "10 * j = 7 * n")
      case True
      with lt have "170 * i + n < 60 * (2 * n)" by simp
      then have "(170 * i + n) div (2 * n) < 60"
        using n by (simp add: div_less_iff_less_mult)
      with True ni show ?thesis by (simp add: round_85_def)
    next
      case False
      from lt have "(170 * i + n) div (2 * n) \<le> (170 * j + n) div (2 * n)"
        by (intro div_le_mono) simp
      with ni False show ?thesis by (simp add: round_85_def)
    qed
  qed
qed

lemma round_85_near:
  assumes "i < n"
  shows "170 * i \<le> 2 * n * round_85 i n + n \<and> 2 * n * round_85 i n \<le> 170 * i + n"
proof (cases "10 * i = 7 * n")
  case True
  then show ?thesis by (simp add: round_85_def)
next
  case False
  define q where "q = (170 * i + n) div (2 * n)"
  from assms have n: "0 < 2 * n" by simp
  have "2 * n * q \<le> 170 * i + n" unfolding q_def by simp
  moreover have "170 * i + n < 2 * n * q + 2 * n"
    unfolding q_def using n by (metis dividend_less_times_div add.commute mult.commute)
  ultimately show ?thesis using False by (simp add: round_85_def q_def)
qed


lemma handler_stream:
  assumes "channel_handler w body = EventStream evs"
  shows "\<exists>u. js_get body ''channelUrl'' = Some u \<and> truthy u
           \<and> evs = run_pipeline w u (effective_limit body)"
  using assms by (auto simp: channel_handler_def split: option.splits if_splits)

lemma progress_values_append:
  "progress_values (xs @ ys) = progress_values xs @ progress_values ys"
  by (induction xs rule: progress_values.induct) simp_all

lemma progress_values_downloading:
  "progress_values (map (\<lambda>j. downloading_status j n) js) = map (\<lambda>j. progress_pct j n) js"
  by (induction js) (simp_all add: downloading_status_def)

lemma progress_values_success:
  "progress_values (success_stream w ids) =
     [0, 5, 10] @ map (\<lambda>j. progress_pct j (length ids)) [0..<length ids] @ [100]"
  by (simp add: success_stream_def progress_values_append progress_values_downloading)

lemma sorted_progress_pct: "sorted (map (\<lambda>j. progress_pct j n) [0..<n])"
proof -
  have "sorted_wrt (\<lambda>i j. progress_pct i n \<le> progress_pct j n) [0..<n]"
  proof (rule sorted_wrt_mono_rel [OF _ sorted_wrt_upt])
    fix i j assume "i \<in> set [0..<n]" "j \<in> set [0..<n]" "i < j"
    then have "i \<le> j" "j < n" by simp_all
    then show "progress_pct i n \<le> progress_pct j n"
      unfolding progress_pct_def using round_85_mono by simp
  qed
  then show ?thesis by (simp add: sorted_map)
qed

lemma progress_pct_bounds: "i < n \<Longrightarrow> 10 \<le> progress_pct i n \<and> progress_pct i n \<le> 95"
  using round_85_upper [of i n] by (simp add: progress_pct_def)

lemma sorted_success: "sorted (progress_values (success_stream w ids))"
proof -
  let ?ps = "map (\<lambda>j. progress_pct j (length ids)) [0..<length ids]"
  have b: "\<forall>p \<in> set ?ps. 10 \<le> p \<and> p \<le> 100"
    using progress_pct_bounds by fastforce
  have "sorted (?ps @ [100])"
    using sorted_progress_pct [of "length ids"] b by (simp add: sorted_append)
  then have "sorted ([0, 5, 10] @ ?ps @ [100])"
    using b by auto
  then show ?thesis by (simp only: progress_values_success)
qed

lemma entry_videoId_fetch: "entry_videoId (fetch_entry w vid) = vid"
proof (cases "getVideoDetails vid (player w vid) (transcript_segments w vid)")
  case (Inl err)
  then show ?thesis by (simp add: fetch_entry_def)
next
  case (Inr info)
  then have v: "videoId info = vid"
    by (auto simp: getVideoDetails_def Let_def split: sum.splits if_splits)
  have "videoId (enrich_fields page info) = videoId info" for page
    by (cases page) (auto simp: enrich_fields_def enrich_try_def Let_def split: option.splits)
  with Inr v show ?thesis by (simp add: fetch_entry_def)
qed

lemma terminated_stream:
  assumes "list_all is_status ss" "is_terminal t"
  shows "\<exists>statuses terminal. ss @ [t] = statuses @ [terminal]
      \<and> list_all is_status statuses \<and> is_terminal terminal"
  using assms by (intro exI conjI) (rule refl, assumption+)

lemma result_in_success:
  assumes "Result videos \<in> set (success_stream w ids)"
  shows "videos = map (fetch_entry w) ids"
  using assms by (auto simp: success_stream_def downloading_status_def)

lemma success_stream_end:
  "drop (length (success_stream w ids) - 2) (success_stream w ids) =
     [Status ''Done!'' 100, Result (map (fetch_entry w) ids)]"
  by (simp add: success_stream_def)

text \<open>
  C1: in a run that reaches the per-video stage with the non-empty list \<open>ids\<close>, the stream
  is a sequence of status events followed by one result event; its \<^verbatim>\<open>videos\<close> array has
  one entry per identifier, in order. Where \<^verbatim>\<open>getVideoDetails\<close> raised, the entry is the
  object holding only the identifier and the message of the error; everywhere else it is
  the record that \<^verbatim>\<open>getVideoDetails\<close> returned, after enrichment.
\<close>

theorem C1_failed_video_isolated:
  assumes "resolveChannelId (channel_page w u) = Inr (Some cid)"
    and "fetchChannelVideoIds (browse w) cid m = Inr ids"
    and "ids \<noteq> []"
  shows "\<exists>statuses videos. run_pipeline w u m = statuses @ [Result videos]
          \<and> list_all is_status statuses
          \<and> length videos = length ids
          \<and> (\<forall>i<length ids.
               case getVideoDetails (ids ! i) (player w (ids ! i))
                      (transcript_segments w (ids ! i)) of
                 Inl err \<Rightarrow> videos ! i = Failed (ids ! i) (message err)
               | Inr info \<Rightarrow>
                   videos ! i = Video (enrich_fields (watch_page w (ids ! i)) info))"
proof -
  let ?statuses = "[Status ''Resolving channel...'' 0, Status ''Fetching video list...'' 5,
      Status (''Found '' @ show_nat (length ids) @ '' videos. Downloading metadata...'') 10]
     @ map (\<lambda>j. downloading_status j (length ids)) [0..<length ids]
     @ [Status ''Done!'' 100]"
  let ?videos = "map (fetch_entry w) ids"
  from assms have "run_pipeline w u m = ?statuses @ [Result ?videos]"
    by (simp add: run_pipeline_cases success_stream_def)
  moreover have "list_all is_status ?statuses"
    by (simp add: list_all_iff downloading_status_def)
  moreover have "length ?videos = length ids" by simp
  moreover have "\<forall>i<length ids.
               case getVideoDetails (ids ! i) (player w (ids ! i))
                      (transcript_segments w (ids ! i)) of
                 Inl err \<Rightarrow> ?videos ! i = Failed (ids ! i) (message err)
               | Inr info \<Rightarrow>
                   ?videos ! i = Video (enrich_fields (watch_page w (ids ! i)) info)"
    by (simp add: fetch_entry_def split: sum.splits)
  ultimately show ?thesis by (intro exI conjI)
qed


text \<open>The example channel: the player request for the second of three videos fails.\<close>

theorem C1_failed_video_isolated_witness:
  "\<exists>statuses videos.
       run_pipeline example_upstream (JStr ''https://www.youtube.com/@veritasium'') 3
         = statuses @ [Result videos]
     \<and> list_all is_status statuses
     \<and> length videos = 3
     \<and> videos ! 0 = Video (example_record
           \<lparr> likeCount := Some (Num 1234), commentCount := Some (Num 56) \<rparr>)
     \<and> videos ! 1 = Failed ''aaaaaaaaaa2'' ''fetch failed''"
proof -
  let ?ids = "[''aaaaaaaaaa1'', ''aaaaaaaaaa2'', ''aaaaaaaaaa3'']"
  have r: "resolveChannelId
      (channel_page example_upstream (JStr ''https://www.youtube.com/@veritasium''))
      = Inr (Some ''UCabcdefghijklmnopqrstuv'')"
    by code_simp
  have f: "fetchChannelVideoIds (browse example_upstream) ''UCabcdefghijklmnopqrstuv'' 3
      = Inr ?ids"
    by code_simp
  have ne: "?ids \<noteq> []" by simp
  have g0: "getVideoDetails ''aaaaaaaaaa1'' (player example_upstream ''aaaaaaaaaa1'')
      (transcript_segments example_upstream ''aaaaaaaaaa1'') = Inr example_record"
    by code_simp
  have e0: "enrich_fields (watch_page example_upstream ''aaaaaaaaaa1'') example_record
      = example_record \<lparr> likeCount := Some (Num 1234), commentCount := Some (Num 56) \<rparr>"
    by code_simp
  have g1: "getVideoDetails ''aaaaaaaaaa2'' (player example_upstream ''aaaaaaaaaa2'')
      (transcript_segments example_upstream ''aaaaaaaaaa2'') = Inl (FetchError ''fetch failed'')"
    by code_simp
  from C1_failed_video_isolated [OF r f ne] obtain statuses videos where
    run: "run_pipeline example_upstream (JStr ''https://www.youtube.com/@veritasium'') 3
         = statuses @ [Result videos]"
    and st: "list_all is_status statuses"
    and len: "length videos = length ?ids"
    and each: "\<forall>i<length ?ids.
               case getVideoDetails (?ids ! i) (player example_upstream (?ids ! i))
                      (transcript_segments example_upstream (?ids ! i)) of
                 Inl err \<Rightarrow> videos ! i = Failed (?ids ! i) (message err)
               | Inr info \<Rightarrow>
                   videos ! i = Video (enrich_fields (watch_page example_upstream (?ids ! i)) info)"
    by (elim exE conjE)
  from each [rule_format, of 0] g0 e0
  have v0: "videos ! 0 = Video (example_record
           \<lparr> likeCount := Some (Num 1234), commentCount := Some (Num 56) \<rparr>)"
    by simp
  from each [rule_format, of 1] g1
  have v1: "videos ! 1 = Failed ''aaaaaaaaaa2'' ''fetch failed''"
    by simp
  from len have l3: "length videos = 3" by simp
  from run st l3 v0 v1 show ?thesis by (intro exI conjI)
qed

text \<open>
  C2: every run whose stream is opened writes a sequence of status events followed by
  exactly one terminal event, a result or an error. When the channel page holds no
  marker the stream is one status event and one error event; when the enumeration
  returns no identifier it is two status events and one error event.
\<close>

theorem C2_one_terminal_event:
  assumes "channel_handler w body = EventStream evs"
  shows "(\<exists>statuses terminal. evs = statuses @ [terminal]
            \<and> list_all is_status statuses \<and> is_terminal terminal)
       \<and> (\<forall>u. js_get body ''channelUrl'' = Some u
               \<and> resolveChannelId (channel_page w u) = Inr None
            \<longrightarrow> evs = [Status ''Resolving channel...'' 0,
                       Error ''Could not resolve channel ID from URL''])
       \<and> (\<forall>u cid. js_get body ''channelUrl'' = Some u
               \<and> resolveChannelId (channel_page w u) = Inr (Some cid)
               \<and> fetchChannelVideoIds (browse w) cid (effective_limit body) = Inr []
            \<longrightarrow> evs = [Status ''Resolving channel...'' 0, Status ''Fetching video list...'' 5,
                       Error ''No videos found for this channel''])"
proof -
  from handler_stream [OF assms] obtain u where
    u: "js_get body ''channelUrl'' = Some u"
    and evs: "evs = run_pipeline w u (effective_limit body)" by auto
  have shape: "\<exists>statuses terminal. run_pipeline w u m = statuses @ [terminal]
            \<and> list_all is_status statuses \<and> is_terminal terminal" for m
  proof (cases "resolveChannelId (channel_page w u)")
    case (Inl err)
    then have eq: "run_pipeline w u m = [Status ''Resolving channel...'' 0] @ [Error (message err)]"
      by (simp add: run_pipeline_cases)
    show ?thesis unfolding eq by (rule terminated_stream) simp_all
  next
    case (Inr found)
    show ?thesis
    proof (cases found)
      case None
      with Inr have eq: "run_pipeline w u m = [Status ''Resolving channel...'' 0]
          @ [Error ''Could not resolve channel ID from URL'']"
        by (simp add: run_pipeline_cases)
      show ?thesis unfolding eq by (rule terminated_stream) simp_all
    next
      case (Some cid)
      show ?thesis
      proof (cases "fetchChannelVideoIds (browse w) cid m")
        case (Inl err)
        with Inr Some have eq: "run_pipeline w u m =
            [Status ''Resolving channel...'' 0, Status ''Fetching video list...'' 5]
            @ [Error (message err)]"
          by (simp add: run_pipeline_cases)
        show ?thesis unfolding eq by (rule terminated_stream) simp_all
      next
        case ids: (Inr ids)
        show ?thesis
        proof (cases "ids = []")
          case True
          with Inr Some ids have eq: "run_pipeline w u m =
              [Status ''Resolving channel...'' 0, Status ''Fetching video list...'' 5]
              @ [Error ''No videos found for this channel'']"
            by (simp add: run_pipeline_cases)
          show ?thesis unfolding eq by (rule terminated_stream) simp_all
        next
          case False
          with Inr Some ids have eq: "run_pipeline w u m =
              ([Status ''Resolving channel...'' 0, Status ''Fetching video list...'' 5,
                Status (''Found '' @ show_nat (length ids) @
                        '' videos. Downloading metadata...'') 10]
               @ map (\<lambda>j. downloading_status j (length ids)) [0..<length ids]
               @ [Status ''Done!'' 100])
              @ [Result (map (fetch_entry w) ids)]"
            by (simp add: run_pipeline_cases success_stream_def)
          show ?thesis unfolding eq
            by (rule terminated_stream) (simp_all add: list_all_iff downloading_status_def)
        qed
      qed
    qed
  qed
  show ?thesis
  proof (intro conjI allI impI)
    show "\<exists>statuses terminal. evs = statuses @ [terminal]
            \<and> list_all is_status statuses \<and> is_terminal terminal"
      unfolding evs by (rule shape)
  next
    fix u' assume "js_get body ''channelUrl'' = Some u'
               \<and> resolveChannelId (channel_page w u') = Inr None"
    with u show "evs = [Status ''Resolving channel...'' 0,
                       Error ''Could not resolve channel ID from URL'']"
      unfolding evs by (simp add: run_pipeline_cases)
  next
    fix u' cid assume "js_get body ''channelUrl'' = Some u'
               \<and> resolveChannelId (channel_page w u') = Inr (Some cid)
               \<and> fetchChannelVideoIds (browse w) cid (effective_limit body) = Inr []"
    with u show "evs = [Status ''Resolving channel...'' 0, Status ''Fetching video list...'' 5,
                       Error ''No videos found for this channel'']"
      unfolding evs by (simp add: run_pipeline_cases)
  qed
qed



text \<open>
  The example channel, the same with a channel page that holds no marker, and the same
  with a browse endpoint that lists no video.
\<close>

theorem C2_one_terminal_event_witness:
  "channel_handler (example_upstream \<lparr> channel_page := (\<lambda>u. Inr ''<html></html>'') \<rparr>)
       example_body
     = EventStream [Status ''Resolving channel...'' 0,
                    Error ''Could not resolve channel ID from URL'']
   \<and> channel_handler
       (example_upstream \<lparr> browse := \<lparr> browse_channel = (\<lambda>c. Inr (JObj [])),
                                        browse_continuation = (\<lambda>k tok. Inr (JObj [])) \<rparr> \<rparr>)
       example_body
     = EventStream [Status ''Resolving channel...'' 0, Status ''Fetching video list...'' 5,
                    Error ''No videos found for this channel'']
   \<and> (\<exists>statuses terminal.
         run_pipeline example_upstream (JStr ''https://www.youtube.com/@veritasium'') 3
           = statuses @ [terminal]
         \<and> list_all is_status statuses \<and> is_terminal terminal)"
proof -
  let ?u = "JStr ''https://www.youtube.com/@veritasium''"
  let ?w1 = "example_upstream \<lparr> channel_page := (\<lambda>u. Inr ''<html></html>'') \<rparr>"
  let ?w2 = "example_upstream \<lparr> browse := \<lparr> browse_channel = (\<lambda>c. Inr (JObj [])),
                                        browse_continuation = (\<lambda>k tok. Inr (JObj [])) \<rparr> \<rparr>"
  have u: "js_get example_body ''channelUrl'' = Some ?u"
    by (simp add: example_body_def)
  have m: "effective_limit example_body = 3"
    by (simp add: example_body_def effective_limit_def video_limit_def)
  have h: "channel_handler w example_body = EventStream (run_pipeline w ?u 3)" for w
    by (simp add: channel_handler_def u m)
  have r1: "resolveChannelId (channel_page ?w1 ?u) = Inr None"
    by code_simp
  have r2: "resolveChannelId (channel_page ?w2 ?u) = Inr (Some ''UCabcdefghijklmnopqrstuv'')"
    by code_simp
  have f2: "fetchChannelVideoIds (browse ?w2) ''UCabcdefghijklmnopqrstuv''
      (effective_limit example_body) = Inr []"
    by code_simp
  from C2_one_terminal_event [OF h [of ?w1]] u r1
  have 1: "run_pipeline ?w1 ?u 3 = [Status ''Resolving channel...'' 0,
                    Error ''Could not resolve channel ID from URL'']"
    by simp
  from C2_one_terminal_event [OF h [of ?w2]] u r2 f2
  have 2: "run_pipeline ?w2 ?u 3 =
      [Status ''Resolving channel...'' 0, Status ''Fetching video list...'' 5,
       Error ''No videos found for this channel'']"
    by simp
  from C2_one_terminal_event [OF h [of example_upstream]]
  have 3: "\<exists>statuses terminal. run_pipeline example_upstream ?u 3 = statuses @ [terminal]
         \<and> list_all is_status statuses \<and> is_terminal terminal"
    by (rule conjunct1)
  from 1 2 3 show ?thesis by (simp only: h)
qed

lemma progress_values_run:
  "progress_values (run_pipeline w u m) =
     (case resolveChannelId (channel_page w u) of
        Inl err \<Rightarrow> [0]
      | Inr None \<Rightarrow> [0]
      | Inr (Some cid) \<Rightarrow>
          (case fetchChannelVideoIds (browse w) cid m of
             Inl err \<Rightarrow> [0, 5]
           | Inr ids \<Rightarrow>
               if ids = [] then [0, 5]
               else [0, 5, 10] @ map (\<lambda>i. progress_pct i (length ids)) [0..<length ids]
                    @ [100]))"
proof (cases "resolveChannelId (channel_page w u)")
  case (Inl err)
  then show ?thesis by (simp add: run_pipeline_cases)
next
  case (Inr found)
  show ?thesis
  proof (cases found)
    case None
    with Inr show ?thesis by (simp add: run_pipeline_cases)
  next
    case (Some cid)
    show ?thesis
    proof (cases "fetchChannelVideoIds (browse w) cid m")
      case (Inl err)
      with Inr Some show ?thesis by (simp add: run_pipeline_cases)
    next
      case ids: (Inr ids)
      show ?thesis
      proof (cases "ids = []")
        case True
        with Inr Some ids show ?thesis by (simp add: run_pipeline_cases)
      next
        case False
        with Inr Some ids have "run_pipeline w u m = success_stream w ids"
          by (simp add: run_pipeline_cases)
        with Inr Some ids False show ?thesis
          by (simp only: progress_values_success) simp
      qed
    qed
  qed
qed

lemma sorted_progress_run: "sorted (progress_values (run_pipeline w u m))"
proof -
  have "sorted ([0, 5, 10] @ map (\<lambda>i. progress_pct i (length ids)) [0..<length ids] @ [100])"
    for ids :: "string list"
    using sorted_success [of w ids] by (simp only: progress_values_success)
  then show ?thesis
    by (simp add: progress_values_run split: sum.splits option.splits)
qed

lemma result_only_on_success:
  assumes "Result videos \<in> set (run_pipeline w u m)"
  shows "\<exists>cid ids. resolveChannelId (channel_page w u) = Inr (Some cid)
           \<and> fetchChannelVideoIds (browse w) cid m = Inr ids \<and> ids \<noteq> []"
  using assms by (auto simp: run_pipeline_cases split: sum.splits option.splits if_splits)

text \<open>
  C4: in every run the progress values of the status events are non-decreasing in
  emission order, and the first event is the status event with progress 0. The values
  are 0 alone when resolution fails; 0 and 5 when the enumeration fails or lists nothing;
  and 0, 5, 10, one value for each video, and 100 when the enumeration lists at least
  one video. In that case, the successful run, the final two events are the status event
  with progress 100 followed by the result event, whose \<^verbatim>\<open>videos\<close> array has one entry
  per enumerated identifier, in order; and a result event is sent in no other case. The
  value for video \<open>i\<close> of \<open>n\<close> lies between 10 and 95 and is within one half of
  \<open>10 + 85 i / n\<close>.
\<close>

theorem C4_progress_monotone:
  assumes "channel_handler w body = EventStream evs"
  shows "sorted (progress_values evs)
       \<and> (\<exists>rest. evs = Status ''Resolving channel...'' 0 # rest)
       \<and> (\<forall>u. js_get body ''channelUrl'' = Some u \<longrightarrow>
            progress_values evs =
              (case resolveChannelId (channel_page w u) of
                 Inl err \<Rightarrow> [0]
               | Inr None \<Rightarrow> [0]
               | Inr (Some cid) \<Rightarrow>
                   (case fetchChannelVideoIds (browse w) cid (effective_limit body) of
                      Inl err \<Rightarrow> [0, 5]
                    | Inr ids \<Rightarrow>
                        if ids = [] then [0, 5]
                        else [0, 5, 10]
                             @ map (\<lambda>i. progress_pct i (length ids)) [0..<length ids]
                             @ [100])))
       \<and> (\<forall>u cid ids.
              js_get body ''channelUrl'' = Some u
            \<and> resolveChannelId (channel_page w u) = Inr (Some cid)
            \<and> fetchChannelVideoIds (browse w) cid (effective_limit body) = Inr ids
            \<and> ids \<noteq> []
            \<longrightarrow> (\<exists>videos.
                   drop (length evs - 2) evs = [Status ''Done!'' 100, Result videos]
                 \<and> length videos = length ids
                 \<and> map entry_videoId videos = ids))
       \<and> (\<forall>videos. Result videos \<in> set evs \<longrightarrow>
            drop (length evs - 2) evs = [Status ''Done!'' 100, Result videos]
          \<and> (\<exists>u cid ids.
                 js_get body ''channelUrl'' = Some u
               \<and> resolveChannelId (channel_page w u) = Inr (Some cid)
               \<and> fetchChannelVideoIds (browse w) cid (effective_limit body) = Inr ids
               \<and> ids \<noteq> []
               \<and> map entry_videoId videos = ids))
       \<and> (\<forall>i n. i < n \<longrightarrow>
              10 \<le> progress_pct i n \<and> progress_pct i n \<le> 95
            \<and> 170 * i \<le> 2 * n * (progress_pct i n - 10) + n
            \<and> 2 * n * (progress_pct i n - 10) \<le> 170 * i + n)"
proof -
  from handler_stream [OF assms] obtain u where
    u: "js_get body ''channelUrl'' = Some u"
    and evs: "evs = run_pipeline w u (effective_limit body)" by auto
  let ?m = "effective_limit body"
  have interp: "\<forall>i n. i < n \<longrightarrow>
              10 \<le> progress_pct i n \<and> progress_pct i n \<le> 95
            \<and> 170 * i \<le> 2 * n * (progress_pct i n - 10) + n
            \<and> 2 * n * (progress_pct i n - 10) \<le> 170 * i + n"
    using progress_pct_bounds round_85_near by (simp add: progress_pct_def)
  have start: "\<exists>rest. evs = Status ''Resolving channel...'' 0 # rest"
    unfolding evs run_pipeline_cases success_stream_def
    by (simp split: sum.splits option.splits)
  have sorted: "sorted (progress_values evs)"
    unfolding evs by (rule sorted_progress_run)
  have "progress_values evs =
              (case resolveChannelId (channel_page w u') of
                 Inl err \<Rightarrow> [0]
               | Inr None \<Rightarrow> [0]
               | Inr (Some cid) \<Rightarrow>
                   (case fetchChannelVideoIds (browse w) cid ?m of
                      Inl err \<Rightarrow> [0, 5]
                    | Inr ids \<Rightarrow>
                        if ids = [] then [0, 5]
                        else [0, 5, 10]
                             @ map (\<lambda>i. progress_pct i (length ids)) [0..<length ids]
                             @ [100]))"
    if "js_get body ''channelUrl'' = Some u'" for u'
  proof -
    from that u have "u' = u" by simp
    then show ?thesis unfolding evs by (simp only: progress_values_run)
  qed
  then have pvals: "\<forall>u. js_get body ''channelUrl'' = Some u \<longrightarrow>
            progress_values evs =
              (case resolveChannelId (channel_page w u) of
                 Inl err \<Rightarrow> [0]
               | Inr None \<Rightarrow> [0]
               | Inr (Some cid) \<Rightarrow>
                   (case fetchChannelVideoIds (browse w) cid ?m of
                      Inl err \<Rightarrow> [0, 5]
                    | Inr ids \<Rightarrow>
                        if ids = [] then [0, 5]
                        else [0, 5, 10]
                             @ map (\<lambda>i. progress_pct i (length ids)) [0..<length ids]
                             @ [100]))"
    by (intro allI impI)
  have success: "\<exists>videos.
                   drop (length evs - 2) evs = [Status ''Done!'' 100, Result videos]
                 \<and> length videos = length ids
                 \<and> map entry_videoId videos = ids"
    if "js_get body ''channelUrl'' = Some u'
            \<and> resolveChannelId (channel_page w u') = Inr (Some cid)
            \<and> fetchChannelVideoIds (browse w) cid ?m = Inr ids
            \<and> ids \<noteq> []" for u' cid ids
  proof -
    from that u have "u' = u" by simp
    with that have s: "evs = success_stream w ids"
      unfolding evs by (simp add: run_pipeline_cases)
    have 1: "drop (length evs - 2) evs
        = [Status ''Done!'' 100, Result (map (fetch_entry w) ids)]"
      unfolding s by (rule success_stream_end)
    have 2: "length (map (fetch_entry w) ids) = length ids" by simp
    have 3: "map entry_videoId (map (fetch_entry w) ids) = ids"
      by (simp add: entry_videoId_fetch comp_def)
    from 1 2 3 show ?thesis by (intro exI [of _ "map (fetch_entry w) ids"] conjI)
  qed
  have only: "drop (length evs - 2) evs = [Status ''Done!'' 100, Result videos]
          \<and> (\<exists>u cid ids.
                 js_get body ''channelUrl'' = Some u
               \<and> resolveChannelId (channel_page w u) = Inr (Some cid)
               \<and> fetchChannelVideoIds (browse w) cid ?m = Inr ids
               \<and> ids \<noteq> []
               \<and> map entry_videoId videos = ids)"
    if "Result videos \<in> set evs" for videos
  proof -
    from that have "Result videos \<in> set (run_pipeline w u ?m)"
      unfolding evs .
    from result_only_on_success [OF this] obtain cid ids where
      r: "resolveChannelId (channel_page w u) = Inr (Some cid)"
      and f: "fetchChannelVideoIds (browse w) cid ?m = Inr ids"
      and ne: "ids \<noteq> []"
      by (elim exE conjE)
    from r f ne have s: "evs = success_stream w ids"
      unfolding evs by (simp add: run_pipeline_cases)
    from that have v: "videos = map (fetch_entry w) ids"
      unfolding s by (rule result_in_success)
    have b: "drop (length evs - 2) evs = [Status ''Done!'' 100, Result videos]"
      unfolding s v by (rule success_stream_end)
    have ids_eq: "map entry_videoId videos = ids"
      unfolding v by (simp add: entry_videoId_fetch comp_def)
    have "\<exists>u cid ids.
                 js_get body ''channelUrl'' = Some u
               \<and> resolveChannelId (channel_page w u) = Inr (Some cid)
               \<and> fetchChannelVideoIds (browse w) cid ?m = Inr ids
               \<and> ids \<noteq> []
               \<and> map entry_videoId videos = ids"
      using u r f ne ids_eq by (intro exI conjI)
    with b show ?thesis by (rule conjI)
  qed
  from success have success': "\<forall>u cid ids.
              js_get body ''channelUrl'' = Some u
            \<and> resolveChannelId (channel_page w u) = Inr (Some cid)
            \<and> fetchChannelVideoIds (browse w) cid ?m = Inr ids
            \<and> ids \<noteq> []
            \<longrightarrow> (\<exists>videos.
                   drop (length evs - 2) evs = [Status ''Done!'' 100, Result videos]
                 \<and> length videos = length ids
                 \<and> map entry_videoId videos = ids)"
    by (intro allI impI)
  from only have only': "\<forall>videos. Result videos \<in> set evs \<longrightarrow>
            drop (length evs - 2) evs = [Status ''Done!'' 100, Result videos]
          \<and> (\<exists>u cid ids.
                 js_get body ''channelUrl'' = Some u
               \<and> resolveChannelId (channel_page w u) = Inr (Some cid)
               \<and> fetchChannelVideoIds (browse w) cid ?m = Inr ids
               \<and> ids \<noteq> []
               \<and> map entry_videoId videos = ids)"
    by (intro allI impI)
  from sorted start pvals success' only' interp show ?thesis
    by (intro conjI)
qed

text \<open>
  The example channel: three videos, no failure in the enumeration. The stream ends with
  the status event of progress 100 and the result event with three entries.
\<close>

theorem C4_progress_monotone_witness:
  "progress_values
     (run_pipeline example_upstream (JStr ''https://www.youtube.com/@veritasium'') 3)
     = [0, 5, 10, 10, 38, 67, 100]
   \<and> sorted (progress_values
       (run_pipeline example_upstream (JStr ''https://www.youtube.com/@veritasium'') 3))
   \<and> (\<exists>videos.
         drop (length (run_pipeline example_upstream
                         (JStr ''https://www.youtube.com/@veritasium'') 3) - 2)
           (run_pipeline example_upstream (JStr ''https://www.youtube.com/@veritasium'') 3)
           = [Status ''Done!'' 100, Result videos]
       \<and> length videos = 3
       \<and> map entry_videoId videos = [''aaaaaaaaaa1'', ''aaaaaaaaaa2'', ''aaaaaaaaaa3''])"
proof -
  let ?u = "JStr ''https://www.youtube.com/@veritasium''"
  let ?ids = "[''aaaaaaaaaa1'', ''aaaaaaaaaa2'', ''aaaaaaaaaa3'']"
  let ?evs = "run_pipeline example_upstream ?u 3"
  have m: "effective_limit example_body = 3"
    by (simp add: example_body_def effective_limit_def video_limit_def)
  have u: "js_get example_body ''channelUrl'' = Some ?u"
    by (simp add: example_body_def)
  have h: "channel_handler example_upstream example_body = EventStream ?evs"
    by (simp add: channel_handler_def u m)
  have r: "resolveChannelId (channel_page example_upstream ?u)
      = Inr (Some ''UCabcdefghijklmnopqrstuv'')"
    by code_simp
  have f: "fetchChannelVideoIds (browse example_upstream) ''UCabcdefghijklmnopqrstuv''
      (effective_limit example_body) = Inr ?ids"
    unfolding m by code_simp
  have ne: "?ids \<noteq> []" by simp
  note c4 = C4_progress_monotone [OF h]
  from c4 have s: "sorted (progress_values ?evs)"
    by (rule conjunct1)
  from c4 have "\<forall>u. js_get example_body ''channelUrl'' = Some u \<longrightarrow>
            progress_values ?evs =
              (case resolveChannelId (channel_page example_upstream u) of
                 Inl err \<Rightarrow> [0]
               | Inr None \<Rightarrow> [0]
               | Inr (Some cid) \<Rightarrow>
                   (case fetchChannelVideoIds (browse example_upstream) cid
                           (effective_limit example_body) of
                      Inl err \<Rightarrow> [0, 5]
                    | Inr ids \<Rightarrow>
                        if ids = [] then [0, 5]
                        else [0, 5, 10]
                             @ map (\<lambda>i. progress_pct i (length ids)) [0..<length ids]
                             @ [100]))"
    by (elim conjE)
  from this [rule_format, OF u] r f have "progress_values ?evs =
       [0, 5, 10] @ map (\<lambda>i. progress_pct i (length ?ids)) [0..<length ?ids] @ [100]"
    by simp
  also have "\<dots> = [0, 5, 10, 10, 38, 67, 100]"
    by code_simp
  finally have pv: "progress_values ?evs = [0, 5, 10, 10, 38, 67, 100]" .
  from c4 have "\<forall>u cid ids.
              js_get example_body ''channelUrl'' = Some u
            \<and> resolveChannelId (channel_page example_upstream u) = Inr (Some cid)
            \<and> fetchChannelVideoIds (browse example_upstream) cid
                 (effective_limit example_body) = Inr ids
            \<and> ids \<noteq> []
            \<longrightarrow> (\<exists>videos.
                   drop (length ?evs - 2) ?evs = [Status ''Done!'' 100, Result videos]
                 \<and> length videos = length ids
                 \<and> map entry_videoId videos = ids)"
    by (elim conjE)
  from this [rule_format, OF conjI [OF u conjI [OF r conjI [OF f ne]]]]
  obtain videos where
    d: "drop (length ?evs - 2) ?evs = [Status ''Done!'' 100, Result videos]"
    and l: "length videos = length ?ids"
    and e: "map entry_videoId videos = ?ids"
    by (elim exE conjE)
  from l have l3: "length videos = 3" by simp
  from d l3 e have last: "\<exists>videos.
         drop (length ?evs - 2) ?evs = [Status ''Done!'' 100, Result videos]
       \<and> length videos = 3
       \<and> map entry_videoId videos = ?ids"
    by (intro exI conjI)
  from pv s last show ?thesis by (intro conjI)
qed

end
